theory Spec2Isabelle
  imports Complex_Main
begin

section \<open>Data model\<close>

text \<open>
  JavaScript numbers are modelled as real numbers: rounding, NaN and overflow of IEEE
  doubles are abstracted away. The only infinities the client code names (the sentinels
  of the projection loop) are modelled explicitly further down.

  The fields of a \<open>DesignObject\<close> carry the prefix \<open>o_\<close>, the fields of a point the
  prefix \<open>p_\<close>, so that \<open>x\<close>, \<open>y\<close> and \<open>id\<close> stay free for variables.
\<close>

record DesignObject =
  o_id :: string
  o_type :: string
  o_x :: real
  o_y :: real
  o_width :: real
  o_height :: real
  o_rotation :: real
  o_scaleX :: real
  o_scaleY :: real
  o_src :: string
  o_highResSrc :: "string option"
  o_zIndex :: real

record Point =
  p_x :: real
  p_y :: real

record SelectionBox =
  sb_startX :: real
  sb_startY :: real
  sb_x :: real
  sb_y :: real
  sb_width :: real
  sb_height :: real

text \<open>
  The React state of the \<open>App\<close> component that the handlers below read and write,
  together with the two pieces of mutable state outside React: the positions of the Konva
  nodes on the stage (looked up by id with \<open>stageRef.current.findOne\<close>) and the
  \<open>dragStartAttrs\<close> map. \<open>objects\<close> is \<open>None\<close> when the state variable holds
  \<open>undefined\<close>, which is what reading \<open>history[i]\<close> outside the array yields.
\<close>

record App =
  objects :: "DesignObject list option"
  selectedIds :: "string list"
  selectionBox :: "SelectionBox option"
  history :: "DesignObject list list"
  historyStep :: nat
  isPanning :: bool
  isDragging :: bool
  nodes :: "string \<rightharpoonup> Point"
  dragStartAttrs :: "string \<rightharpoonup> DesignObject"

datatype js_error = TypeError

text \<open>Reading \<open>xs[i]\<close> in JavaScript: \<open>undefined\<close> outside the array.\<close>

definition js_index :: "'a list \<Rightarrow> nat \<Rightarrow> 'a option" where
  "js_index xs i = (if i < length xs then Some (xs ! i) else None)"

text \<open>The state \<open>useState\<close> starts from.\<close>

definition initial_App :: App where
  "initial_App =
     \<lparr> objects = Some [], selectedIds = [], selectionBox = None,
       history = [[]], historyStep = 0, isPanning = False, isDragging = False,
       nodes = Map.empty, dragStartAttrs = Map.empty \<rparr>"

section \<open>History manager\<close>

text \<open>
  \<open>saveHistory\<close>: \<open>history.slice(0, historyStep + 1)\<close>, push, and the three setters.
\<close>

definition saveHistory :: "DesignObject list \<Rightarrow> App \<Rightarrow> App" where
  "saveHistory newObjects s =
     (let newHistory = take (historyStep s + 1) (history s) @ [newObjects]
      in s\<lparr> history := newHistory,
            historyStep := length newHistory - 1,
            objects := Some newObjects \<rparr>)"

definition undo :: "App \<Rightarrow> App" where
  "undo s =
     (if historyStep s > 0
      then s\<lparr> historyStep := historyStep s - 1,
              objects := js_index (history s) (historyStep s - 1),
              selectedIds := [] \<rparr>
      else s)"

text \<open>
  \<open>history.length - 1\<close> is \<open>-1\<close> for an empty array, so the comparison is made over
  the integers.
\<close>

definition redo :: "App \<Rightarrow> App" where
  "redo s =
     (if int (historyStep s) < int (length (history s)) - 1
      then s\<lparr> historyStep := historyStep s + 1,
              objects := js_index (history s) (historyStep s + 1),
              selectedIds := [] \<rparr>
      else s)"

text \<open>The invariant of the history: the cursor addresses an existing entry.\<close>

definition history_inv :: "App \<Rightarrow> bool" where
  "history_inv s \<longleftrightarrow> historyStep s < length (history s)"

text \<open>A small object for concrete evaluations: an image with the given id and position.\<close>

definition image_at :: "string \<Rightarrow> real \<Rightarrow> real \<Rightarrow> DesignObject" where
  "image_at i x y =
     \<lparr> o_id = i, o_type = ''image'', o_x = x, o_y = y, o_width = 96, o_height = 48,
       o_rotation = 0, o_scaleX = 1, o_scaleY = 1, o_src = ''thumb.png'',
       o_highResSrc = None, o_zIndex = 0 \<rparr>"

text \<open>
  Committing a sequence of object lists one after the other, each call seeing the state
  the previous one left.
\<close>

definition commits :: "DesignObject list list \<Rightarrow> App \<Rightarrow> App" where
  "commits cs s = foldl (\<lambda>t c. saveHistory c t) s cs"

text \<open>
  The number of entries a commit drops: the entries before, plus the one pushed, minus the
  entries after.
\<close>

definition discarded :: "DesignObject list \<Rightarrow> App \<Rightarrow> nat" where
  "discarded c s = length (history s) + 1 - length (history (saveHistory c s))"

section \<open>Marquee selection\<close>

text \<open>
  The predicate \<open>handleMouseUp\<close> filters the objects with: \<open>boxRect\<close> is the marquee,
  \<open>objRect\<close> the box of the object at \<open>(x, y)\<close> with the signed sizes
  \<open>width * scaleX\<close> and \<open>height * scaleY\<close>; the rotation is not read.
\<close>

definition marquee_hit :: "SelectionBox \<Rightarrow> DesignObject \<Rightarrow> bool" where
  "marquee_hit sb obj =
     (let boxRect_x = sb_x sb; boxRect_y = sb_y sb;
          boxRect_width = sb_width sb; boxRect_height = sb_height sb;
          objRect_x = o_x obj; objRect_y = o_y obj;
          objRect_width = o_width obj * o_scaleX obj;
          objRect_height = o_height obj * o_scaleY obj
      in boxRect_x < objRect_x + objRect_width \<and>
         boxRect_x + boxRect_width > objRect_x \<and>
         boxRect_y < objRect_y + objRect_height \<and>
         boxRect_y + boxRect_height > objRect_y)"

text \<open>
  \<open>handleMouseUp\<close>. With no marquee in progress only the panning flag is reset. With
  \<open>objects\<close> undefined, \<open>objects.filter\<close> throws.
\<close>

definition handleMouseUp :: "App \<Rightarrow> js_error + App" where
  "handleMouseUp s =
     (case selectionBox s of
        None \<Rightarrow> Inr (s\<lparr> isPanning := False \<rparr>)
      | Some sb \<Rightarrow>
          (case objects s of
             None \<Rightarrow> Inl TypeError
           | Some objs \<Rightarrow>
               (let selected = filter (marquee_hit sb) objs;
                    ids = map o_id selected;
                    s1 = s\<lparr> isPanning := False \<rparr>;
                    s2 = (if length ids > 0 then s1\<lparr> selectedIds := ids \<rparr> else s1)
                in Inr (s2\<lparr> selectionBox := None \<rparr>))))"

text \<open>
  The specification's test, stated on its own: two axis-aligned rectangles, each given as
  \<open>(x, y, width, height)\<close>, overlap when each starts strictly before the other ends, on
  both axes.
\<close>

type_synonym rect = "real \<times> real \<times> real \<times> real"

fun aabb_overlap :: "rect \<Rightarrow> rect \<Rightarrow> bool" where
  "aabb_overlap (ax, ay, aw, ah) (bx, by, bw, bh) \<longleftrightarrow>
     ax < bx + bw \<and> bx < ax + aw \<and> ay < by + bh \<and> by < ay + ah"

definition marquee_rect :: "SelectionBox \<Rightarrow> rect" where
  "marquee_rect sb = (sb_x sb, sb_y sb, sb_width sb, sb_height sb)"

definition unrotated_box :: "DesignObject \<Rightarrow> rect" where
  "unrotated_box obj =
     (o_x obj, o_y obj, o_width obj * o_scaleX obj, o_height obj * o_scaleY obj)"

text \<open>A marquee from \<open>(x, y)\<close> with the given extent, for concrete evaluations.\<close>

definition marquee :: "real \<Rightarrow> real \<Rightarrow> real \<Rightarrow> real \<Rightarrow> SelectionBox" where
  "marquee x y w h =
     \<lparr> sb_startX = x, sb_startY = y, sb_x = x, sb_y = y, sb_width = w, sb_height = h \<rparr>"

section \<open>Geometry kernel\<close>

text \<open>
  \<open>getRotatedCorners\<close>. The default value \<open>0\<close> of \<open>buffer\<close> is passed explicitly.
\<close>

definition getRotatedCorners :: "DesignObject \<Rightarrow> real \<Rightarrow> Point list" where
  "getRotatedCorners obj buffer =
     (let rad = (o_rotation obj * pi) / 180;
          c = cos rad;
          s = sin rad;
          w = o_width obj * \<bar>o_scaleX obj\<bar> + buffer * 2;
          h = o_height obj * \<bar>o_scaleY obj\<bar> + buffer * 2;
          ox = o_x obj;
          oy = o_y obj;
          corners = [ \<lparr> p_x = - buffer, p_y = - buffer \<rparr>,
                      \<lparr> p_x = w - buffer, p_y = - buffer \<rparr>,
                      \<lparr> p_x = w - buffer, p_y = h - buffer \<rparr>,
                      \<lparr> p_x = - buffer, p_y = h - buffer \<rparr> ]
      in map (\<lambda>p. \<lparr> p_x = p_x p * c - p_y p * s + ox,
                     p_y = p_x p * s + p_y p * c + oy \<rparr>) corners)"

text \<open>
  The code takes the cosine, the sine and \<open>pi\<close> from \<open>Math\<close>, which returns doubles near
  the exact values. \<open>getRotatedCorners_with\<close> is the same function with these three left
  open; \<open>getRotatedCorners\<close> is its instance at the exact ones. Two points are close when
  both coordinates differ by at most the tolerance.
\<close>

definition getRotatedCorners_with ::
  "(real \<Rightarrow> real) \<Rightarrow> (real \<Rightarrow> real) \<Rightarrow> real \<Rightarrow> DesignObject \<Rightarrow> real \<Rightarrow> Point list" where
  "getRotatedCorners_with Math_cos Math_sin Math_PI obj buffer =
     (let rad = (o_rotation obj * Math_PI) / 180;
          c = Math_cos rad;
          s = Math_sin rad;
          w = o_width obj * \<bar>o_scaleX obj\<bar> + buffer * 2;
          h = o_height obj * \<bar>o_scaleY obj\<bar> + buffer * 2;
          ox = o_x obj;
          oy = o_y obj;
          corners = [ \<lparr> p_x = - buffer, p_y = - buffer \<rparr>,
                      \<lparr> p_x = w - buffer, p_y = - buffer \<rparr>,
                      \<lparr> p_x = w - buffer, p_y = h - buffer \<rparr>,
                      \<lparr> p_x = - buffer, p_y = h - buffer \<rparr> ]
      in map (\<lambda>p. \<lparr> p_x = p_x p * c - p_y p * s + ox,
                     p_y = p_x p * s + p_y p * c + oy \<rparr>) corners)"

definition close_to :: "real \<Rightarrow> Point \<Rightarrow> Point \<Rightarrow> bool" where
  "close_to tol p q \<longleftrightarrow> \<bar>p_x p - p_x q\<bar> \<le> tol \<and> \<bar>p_y p - p_y q\<bar> \<le> tol"

text \<open>
  A cosine and a sine for concrete evaluations, with \<open>355 / 113\<close> for \<open>pi\<close>: at the
  radians of 0, 90, 180 and 270 degrees they are exact or off by \<open>1 / 10 ^ 16\<close>, as
  doubles are.
\<close>

definition approx_cos :: "real \<Rightarrow> real" where
  "approx_cos t = (if t = 0 then 1 else if t = 355 / 113 then - 1 else 1 / 10 ^ 16)"

definition approx_sin :: "real \<Rightarrow> real" where
  "approx_sin t =
     (if t = 0 then 0 else if t = 355 / 226 then 1
      else if t = 355 / 113 then 1 / 10 ^ 16 else - 1)"

text \<open>
  The running minimum and maximum of \<open>doPolygonsIntersect\<close> start at \<open>Infinity\<close> and
  \<open>-Infinity\<close>; \<open>js_less\<close> is \<open><\<close> on such values.
\<close>

datatype bound = NegInfinity | Finite real | PosInfinity

fun js_less :: "bound \<Rightarrow> bound \<Rightarrow> bool" where
  "js_less (Finite a) (Finite b) = (a < b)"
| "js_less NegInfinity NegInfinity = False"
| "js_less NegInfinity _ = True"
| "js_less PosInfinity _ = False"
| "js_less (Finite a) PosInfinity = True"
| "js_less (Finite a) NegInfinity = False"

text \<open>One of the two inner loops: the interval a polygon projects to on \<open>normal\<close>.\<close>

definition project :: "Point \<Rightarrow> Point list \<Rightarrow> bound \<times> bound" where
  "project normal poly =
     foldl (\<lambda>(mn, mx) p.
              let projected = p_x normal * p_x p + p_y normal * p_y p
              in (if js_less (Finite projected) mn then Finite projected else mn,
                  if js_less mx (Finite projected) then Finite projected else mx))
           (PosInfinity, NegInfinity) poly"

text \<open>
  The body of the loop over \<open>j\<close>: the normal of the edge from \<open>polygon[j]\<close> to
  \<open>polygon[(j + 1) % polygon.length]\<close>, and whether the two projections are disjoint on
  it. Both indices are below the length whenever \<open>j\<close> is.
\<close>

definition separated_on_edge :: "Point list \<Rightarrow> Point list \<Rightarrow> Point list \<Rightarrow> nat \<Rightarrow> bool" where
  "separated_on_edge a b polygon j =
     (let p1 = polygon ! j;
          p2 = polygon ! ((j + 1) mod length polygon);
          normal = \<lparr> p_x = p_y p2 - p_y p1, p_y = p_x p1 - p_x p2 \<rparr>;
          (minA, maxA) = project normal a;
          (minB, maxB) = project normal b
      in js_less maxA minB \<or> js_less maxB minA)"

text \<open>
  \<open>doPolygonsIntersect\<close>: \<open>false\<close> as soon as an edge of \<open>a\<close> or of \<open>b\<close> separates
  the projections, \<open>true\<close> when the loops run to their end.
\<close>

definition doPolygonsIntersect :: "Point list \<Rightarrow> Point list \<Rightarrow> bool" where
  "doPolygonsIntersect a b =
     (\<not> list_ex (\<lambda>polygon. list_ex (separated_on_edge a b polygon) [0..<length polygon])
                 [a, b])"

text \<open>
  The specification's reading of \<open>orientedCorners\<close>, with the pivot of the rotation left
  open: the box of size \<open>width * |scaleX|\<close> by \<open>height * |scaleY|\<close> at \<open>(x, y)\<close>,
  inflated by \<open>buffer\<close> on every side, each corner rotated about \<open>pivot\<close>.
\<close>

definition rotate_about :: "Point \<Rightarrow> real \<Rightarrow> Point \<Rightarrow> Point" where
  "rotate_about pivot rad p =
     \<lparr> p_x = p_x pivot + (p_x p - p_x pivot) * cos rad - (p_y p - p_y pivot) * sin rad,
       p_y = p_y pivot + (p_x p - p_x pivot) * sin rad + (p_y p - p_y pivot) * cos rad \<rparr>"

definition rect_polygon :: "real \<Rightarrow> real \<Rightarrow> real \<Rightarrow> real \<Rightarrow> Point list" where
  "rect_polygon x y w h =
     [ \<lparr> p_x = x, p_y = y \<rparr>, \<lparr> p_x = x + w, p_y = y \<rparr>,
       \<lparr> p_x = x + w, p_y = y + h \<rparr>, \<lparr> p_x = x, p_y = y + h \<rparr> ]"

definition inflated_box :: "DesignObject \<Rightarrow> real \<Rightarrow> Point list" where
  "inflated_box obj buffer =
     rect_polygon (o_x obj - buffer) (o_y obj - buffer)
       (o_width obj * \<bar>o_scaleX obj\<bar> + 2 * buffer)
       (o_height obj * \<bar>o_scaleY obj\<bar> + 2 * buffer)"

definition oriented_corners_about :: "Point \<Rightarrow> DesignObject \<Rightarrow> real \<Rightarrow> Point list" where
  "oriented_corners_about pivot obj buffer =
     map (rotate_about pivot (o_rotation obj * pi / 180)) (inflated_box obj buffer)"

definition object_origin :: "DesignObject \<Rightarrow> Point" where
  "object_origin obj = \<lparr> p_x = o_x obj, p_y = o_y obj \<rparr>"

definition object_center :: "DesignObject \<Rightarrow> Point" where
  "object_center obj =
     \<lparr> p_x = o_x obj + o_width obj * \<bar>o_scaleX obj\<bar> / 2,
       p_y = o_y obj + o_height obj * \<bar>o_scaleY obj\<bar> / 2 \<rparr>"

text \<open>Edge vectors of a corner list, and their cross and dot products.\<close>

definition edge :: "Point list \<Rightarrow> nat \<Rightarrow> Point" where
  "edge cs j =
     \<lparr> p_x = p_x (cs ! ((j + 1) mod 4)) - p_x (cs ! j),
       p_y = p_y (cs ! ((j + 1) mod 4)) - p_y (cs ! j) \<rparr>"

definition cross :: "Point \<Rightarrow> Point \<Rightarrow> real" where
  "cross u v = p_x u * p_y v - p_y u * p_x v"

definition dot :: "Point \<Rightarrow> Point \<Rightarrow> real" where
  "dot u v = p_x u * p_x v + p_y u * p_y v"

text \<open>The plain test on two closed intervals \<open>[lo, hi]\<close>.\<close>

definition intervals_intersect :: "real \<Rightarrow> real \<Rightarrow> real \<Rightarrow> real \<Rightarrow> bool" where
  "intervals_intersect lo1 hi1 lo2 hi2 \<longleftrightarrow> lo1 \<le> hi2 \<and> lo2 \<le> hi1"

section \<open>Drag synchronisation\<close>

text \<open>
  The drag handlers receive the Konva event; the model passes the id of its target, and
  reads the target's position from \<open>nodes\<close>, where the node of that id lives.
  \<open>objects.find\<close> and \<open>objects.map\<close> throw when \<open>objects\<close> is undefined.

  \<open>record_anchor\<close> is the body of the \<open>forEach\<close> of \<open>onDragStart\<close>: with both the node
  and the object found, the object is stored under its id with the node's live position.
\<close>

definition record_anchor ::
  "DesignObject list \<Rightarrow> (string \<rightharpoonup> Point) \<Rightarrow> (string \<rightharpoonup> DesignObject) \<Rightarrow> string
     \<Rightarrow> (string \<rightharpoonup> DesignObject)" where
  "record_anchor objs nds m sId =
     (case nds sId of
        None \<Rightarrow> m
      | Some sNode \<Rightarrow>
          (case find (\<lambda>ob. o_id ob = sId) objs of
             None \<Rightarrow> m
           | Some obj \<Rightarrow> m(sId \<mapsto> obj\<lparr> o_x := p_x sNode, o_y := p_y sNode \<rparr>)))"

definition onDragStart :: "string \<Rightarrow> App \<Rightarrow> js_error + App" where
  "onDragStart i s =
     (case objects s of
        None \<Rightarrow> Inl TypeError
      | Some objs \<Rightarrow>
          Inr (s\<lparr> dragStartAttrs :=
                    (if i \<in> set (selectedIds s)
                     then foldl (record_anchor objs (nodes s)) (dragStartAttrs s) (selectedIds s)
                     else record_anchor objs (nodes s) (dragStartAttrs s) i),
                  isDragging := True \<rparr>))"

text \<open>
  The body of the \<open>forEach\<close> of \<open>onDragMove\<close>: every selected node other than the dragged
  one is placed at its anchor plus the delta.
\<close>

definition move_follower ::
  "(string \<rightharpoonup> DesignObject) \<Rightarrow> string \<Rightarrow> real \<Rightarrow> real \<Rightarrow> (string \<rightharpoonup> Point) \<Rightarrow> string
     \<Rightarrow> (string \<rightharpoonup> Point)" where
  "move_follower anchors i dx dy nds sId =
     (if sId \<noteq> i
      then (case nds sId of
              None \<Rightarrow> nds
            | Some node \<Rightarrow>
                (case anchors sId of
                   None \<Rightarrow> nds
                 | Some sStart \<Rightarrow> nds(sId \<mapsto> \<lparr> p_x = o_x sStart + dx, p_y = o_y sStart + dy \<rparr>)))
      else nds)"

definition onDragMove :: "string \<Rightarrow> App \<Rightarrow> App" where
  "onDragMove i s =
     (if i \<in> set (selectedIds s) \<and> length (selectedIds s) > 1
      then (case dragStartAttrs s i of
              None \<Rightarrow> s
            | Some startAttrs \<Rightarrow>
                (case nodes s i of
                   None \<Rightarrow> s
                 | Some target \<Rightarrow>
                     (let dx = p_x target - o_x startAttrs;
                          dy = p_y target - o_y startAttrs
                      in s\<lparr> nodes := foldl (move_follower (dragStartAttrs s) i dx dy)
                                          (nodes s) (selectedIds s) \<rparr>)))
      else s)"

definition onDragEnd :: "string \<Rightarrow> App \<Rightarrow> js_error + App" where
  "onDragEnd i s =
     (case objects s of
        None \<Rightarrow> Inl TypeError
      | Some objs \<Rightarrow>
          (let idsToUpdate = (if i \<in> set (selectedIds s) then selectedIds s else [i]);
               potentialObjects =
                 map (\<lambda>obj. if o_id obj \<in> set idsToUpdate
                             then (case nodes s (o_id obj) of
                                     Some node \<Rightarrow> obj\<lparr> o_x := p_x node, o_y := p_y node \<rparr>
                                   | None \<Rightarrow> obj)
                             else obj) objs
           in Inr ((saveHistory potentialObjects s)
                     \<lparr> isDragging := False, dragStartAttrs := Map.empty \<rparr>)))"

text \<open>
  What Konva does between two \<open>dragmove\<close> events: the dragged node follows the pointer to
  a new position. A gesture is a drag start, any number of pointer moves each followed by
  \<open>onDragMove\<close>, and a drag end.
\<close>

definition konva_drag :: "string \<Rightarrow> Point \<Rightarrow> App \<Rightarrow> App" where
  "konva_drag i p s = s\<lparr> nodes := (nodes s)(i \<mapsto> p) \<rparr>"

definition drag_moves :: "string \<Rightarrow> Point list \<Rightarrow> App \<Rightarrow> App" where
  "drag_moves i ps s = foldl (\<lambda>t p. onDragMove i (konva_drag i p t)) s ps"

definition drag_gesture :: "string \<Rightarrow> Point list \<Rightarrow> App \<Rightarrow> js_error + App" where
  "drag_gesture i ps s =
     (case onDragStart i s of
        Inl e \<Rightarrow> Inl e
      | Inr s1 \<Rightarrow> onDragEnd i (drag_moves i ps s1))"

text \<open>The stage as React renders it: every object has its node, at the object's position.\<close>

definition nodes_of :: "DesignObject list \<Rightarrow> (string \<rightharpoonup> Point)" where
  "nodes_of objs = map_of (map (\<lambda>obj. (o_id obj, \<lparr> p_x = o_x obj, p_y = o_y obj \<rparr>)) objs)"

text \<open>Moving an object by a delta, as a copy.\<close>

definition shifted :: "real \<Rightarrow> real \<Rightarrow> DesignObject \<Rightarrow> DesignObject" where
  "shifted dx dy obj = obj\<lparr> o_x := o_x obj + dx, o_y := o_y obj + dy \<rparr>"

section \<open>Export compositor\<close>

text \<open>
  The body of a \<open>POST /api/export\<close> request. \<open>b_size\<close> is \<open>None\<close> when \<open>size\<close> is
  missing or falsy. \<open>b_objects\<close> distinguishes a missing or falsy \<open>objects\<close>, a
  truthy value that is not an array, and an array.
\<close>

record Size =
  s_width :: real
  s_height :: real

datatype objects_field = Absent | NotArray | Array "DesignObject list"

record export_body =
  b_size :: "Size option"
  b_objects :: objects_field

text \<open>
  What the handler calls outside itself. \<open>fetch_image\<close> is the download and decode of
  one URL (\<open>axios.get\<close>, \<open>new canvas.Image()\<close>, the wait for the load): \<open>None\<close> when any
  of it throws or times out. \<open>toBuffer\<close> is \<open>canvasElement.toBuffer('image/png')\<close> and
  \<open>sharp_png\<close> the \<open>sharp\<close> pipeline that tags 300 DPI; \<open>None\<close> when they throw.
  Creating the canvas and its context is taken not to throw.
\<close>

type_synonym bytes = "nat list"

datatype 'img ctx_op =
    Save
  | Translate real real
  | Rotate real
  | DrawImage 'img real real real real
  | Restore

record 'img canvas =
  c_width :: int
  c_height :: int
  c_ops :: "'img ctx_op list"

record 'img env =
  fetch_image :: "string \<Rightarrow> 'img option"
  toBuffer :: "'img canvas \<Rightarrow> bytes option"
  sharp_png :: "bytes \<Rightarrow> bytes option"

datatype response = Json nat string | Png bytes

text \<open>
  What a request leaves behind: the response, the URLs requested, the canvas if one was
  created (with the drawing calls issued on its context), and the counts of the warning
  \<open>Only n/m images loaded successfully\<close> if it was logged.
\<close>

record 'img export_result =
  r_response :: response
  r_fetched :: "string list"
  r_canvas :: "'img canvas option"
  r_warned :: "(nat \<times> nat) option"

text \<open>\<open>v || d\<close> on a number: \<open>0\<close> is falsy.\<close>

definition js_or :: "real \<Rightarrow> real \<Rightarrow> real" where
  "js_or v d = (if v = 0 then d else v)"

text \<open>\<open>obj.highResSrc || obj.src\<close>: the empty string is falsy, as is a missing field.\<close>

definition imageUrl :: "DesignObject \<Rightarrow> string" where
  "imageUrl obj =
     (case o_highResSrc obj of
        None \<Rightarrow> o_src obj
      | Some u \<Rightarrow> if u = [] then o_src obj else u)"

text \<open>
  The three results of the callback of \<open>imageObjects.map\<close>: \<open>null\<close> for an object with
  no URL, an item with \<open>success: true\<close> and the image, an item with \<open>success: false\<close>.
\<close>

datatype 'img load_item = NoUrl | Loaded 'img DesignObject | LoadFailed DesignObject

definition load_image :: "'img env \<Rightarrow> DesignObject \<Rightarrow> 'img load_item" where
  "load_image env obj =
     (if imageUrl obj = [] then NoUrl
      else (case fetch_image env (imageUrl obj) of
              Some img \<Rightarrow> Loaded img obj
            | None \<Rightarrow> LoadFailed obj))"

text \<open>\<open>imageData.filter(item => item && item.success)\<close>, keeping image and object.\<close>

fun successful :: "'img load_item list \<Rightarrow> ('img \<times> DesignObject) list" where
  "successful [] = []"
| "successful (Loaded img obj # items) = (img, obj) # successful items"
| "successful (_ # items) = successful items"

text \<open>
  The position and dimensions computed in the drawing loop, as \<open>(x, y, width, height)\<close>,
  and the calls one iteration issues. The guard \<open>if (!image) return\<close> never fires: a
  successful item carries its image.
\<close>

definition dest_rect :: "real \<Rightarrow> DesignObject \<Rightarrow> rect" where
  "dest_rect SCALE_FACTOR obj =
     (o_x obj * SCALE_FACTOR,
      o_y obj * SCALE_FACTOR,
      o_width obj * SCALE_FACTOR * js_or (o_scaleX obj) 1,
      o_height obj * SCALE_FACTOR * js_or (o_scaleY obj) 1)"

definition draw_image :: "real \<Rightarrow> 'img \<times> DesignObject \<Rightarrow> 'img ctx_op list" where
  "draw_image SCALE_FACTOR item =
     (case item of (img, obj) \<Rightarrow>
        (case dest_rect SCALE_FACTOR obj of (x, y, width, height) \<Rightarrow>
           (let rotation = js_or (o_rotation obj) 0 * pi / 180
            in [ Save,
                 Translate (x + width / 2) (y + height / 2),
                 Rotate rotation,
                 DrawImage img (- width / 2) (- height / 2) width height,
                 Restore ])))"

definition fail :: "nat \<Rightarrow> string \<Rightarrow> string list \<Rightarrow> 'img canvas option \<Rightarrow> 'img export_result" where
  "fail status msg urls cv =
     \<lparr> r_response = Json status msg, r_fetched = urls, r_canvas = cv, r_warned = None \<rparr>"

text \<open>
  The last stage: \<open>toBuffer\<close>, \<open>sharp\<close>, and the two checks for an empty buffer. Every
  failure is thrown again and ends in the outer \<open>catch\<close>.
\<close>

definition finalize :: "'img env \<Rightarrow> 'img canvas \<Rightarrow> bytes option" where
  "finalize env cv =
     (case toBuffer env cv of
        None \<Rightarrow> None
      | Some pngBuffer \<Rightarrow>
          if pngBuffer = [] then None
          else (case sharp_png env pngBuffer of
                  None \<Rightarrow> None
                | Some buffer \<Rightarrow> if buffer = [] then None else Some buffer))"

definition export :: "'img env \<Rightarrow> export_body \<Rightarrow> 'img export_result" where
  "export env body =
     (case b_size body of
        None \<Rightarrow> fail 400 ''Missing size or objects data'' [] None
      | Some sz \<Rightarrow>
         (case b_objects body of
            Absent \<Rightarrow> fail 400 ''Missing size or objects data'' [] None
          | NotArray \<Rightarrow> fail 400 ''No objects to export'' [] None
          | Array objs \<Rightarrow>
              if length objs = 0 then fail 400 ''No objects to export'' [] None
              else
                (let SCALE_FACTOR = 300 / 96;
                     stageWidth = \<lceil>s_width sz * SCALE_FACTOR\<rceil>;
                     stageHeight = \<lceil>s_height sz * SCALE_FACTOR\<rceil>;
                     canvasElement = \<lparr> c_width = stageWidth, c_height = stageHeight, c_ops = [] \<rparr>;
                     imageObjects = filter (\<lambda>obj. o_type obj = ''image'') objs
                 in if length imageObjects = 0
                    then fail 400 ''No image objects to export'' [] (Some canvasElement)
                    else
                      (let imageData = map (load_image env) imageObjects;
                           urls = filter (\<lambda>u. u \<noteq> []) (map imageUrl imageObjects);
                           successfulImages = successful imageData;
                           successCount = length successfulImages
                       in if successCount = 0
                          then fail 500 ''Failed to load any images. Please ensure images are uploaded and accessible.''
                                 urls (Some canvasElement)
                          else
                            (let warned = (if successCount < length imageObjects
                                           then Some (successCount, length imageObjects) else None);
                                 drawn = canvasElement
                                   \<lparr> c_ops := concat (map (draw_image SCALE_FACTOR) successfulImages) \<rparr>
                             in (case finalize env drawn of
                                   None \<Rightarrow>
                                     \<lparr> r_response = Json 500 ''Failed to generate image'',
                                       r_fetched = urls, r_canvas = Some drawn, r_warned = warned \<rparr>
                                 | Some buffer \<Rightarrow>
                                     \<lparr> r_response = Png buffer,
                                       r_fetched = urls, r_canvas = Some drawn, r_warned = warned \<rparr>))))))"

text \<open>
  The Canvas 2D context, as far as the drawing loop uses it. This is the behaviour of the
  library the handler draws with, after the Canvas API: a current transform
  \<open>(a, b, c, d, e, f)\<close> taking \<open>(x, y)\<close> to \<open>(a x + c y + e, b x + d y + f)\<close>, a stack
  that \<open>save\<close> pushes it on and \<open>restore\<close> pops it from, \<open>translate\<close> and \<open>rotate\<close>
  composing on the right, and \<open>drawImage\<close> painting the image onto the quadrilateral the
  transform takes the rectangle \<open>(dx, dy, dw, dh)\<close> to.
\<close>

record matrix =
  m_a :: real
  m_b :: real
  m_c :: real
  m_d :: real
  m_e :: real
  m_f :: real

record 'img ctx =
  ctm :: matrix
  stack :: "matrix list"
  painted :: "('img \<times> Point list) list"

definition identity_matrix :: matrix where
  "identity_matrix = \<lparr> m_a = 1, m_b = 0, m_c = 0, m_d = 1, m_e = 0, m_f = 0 \<rparr>"

definition apply_matrix :: "matrix \<Rightarrow> Point \<Rightarrow> Point" where
  "apply_matrix m p =
     \<lparr> p_x = m_a m * p_x p + m_c m * p_y p + m_e m,
       p_y = m_b m * p_x p + m_d m * p_y p + m_f m \<rparr>"

fun run_op :: "'img ctx \<Rightarrow> 'img ctx_op \<Rightarrow> 'img ctx" where
  "run_op cx Save = cx\<lparr> stack := ctm cx # stack cx \<rparr>"
| "run_op cx Restore =
     (case stack cx of [] \<Rightarrow> cx | m # ms \<Rightarrow> cx\<lparr> ctm := m, stack := ms \<rparr>)"
| "run_op cx (Translate tx ty) =
     cx\<lparr> ctm := (ctm cx)\<lparr> m_e := m_a (ctm cx) * tx + m_c (ctm cx) * ty + m_e (ctm cx),
                           m_f := m_b (ctm cx) * tx + m_d (ctm cx) * ty + m_f (ctm cx) \<rparr> \<rparr>"
| "run_op cx (Rotate t) =
     cx\<lparr> ctm := (ctm cx)\<lparr> m_a := m_a (ctm cx) * cos t + m_c (ctm cx) * sin t,
                           m_b := m_b (ctm cx) * cos t + m_d (ctm cx) * sin t,
                           m_c := m_c (ctm cx) * cos t - m_a (ctm cx) * sin t,
                           m_d := m_d (ctm cx) * cos t - m_b (ctm cx) * sin t \<rparr> \<rparr>"
| "run_op cx (DrawImage img dx dy dw dh) =
     cx\<lparr> painted := painted cx @ [(img, map (apply_matrix (ctm cx)) (rect_polygon dx dy dw dh))] \<rparr>"

definition run_ops :: "'img ctx \<Rightarrow> 'img ctx_op list \<Rightarrow> 'img ctx" where
  "run_ops cx ops = foldl run_op cx ops"

definition fresh_ctx :: "'img ctx" where
  "fresh_ctx = \<lparr> ctm = identity_matrix, stack = [], painted = [] \<rparr>"

text \<open>
  The specification's destination rectangle, with the magnitudes of the scales, and the
  quadrilateral a rectangle \<open>(x, y, w, h)\<close> covers after a turn about its centre.
\<close>

definition dest_rect_spec :: "real \<Rightarrow> DesignObject \<Rightarrow> rect" where
  "dest_rect_spec S obj =
     (o_x obj * S, o_y obj * S,
      o_width obj * S * \<bar>o_scaleX obj\<bar>, o_height obj * S * \<bar>o_scaleY obj\<bar>)"

fun turned_about_center :: "real \<Rightarrow> rect \<Rightarrow> Point list" where
  "turned_about_center t (x, y, w, h) =
     map (rotate_about \<lparr> p_x = x + w / 2, p_y = y + h / 2 \<rparr> t) (rect_polygon x y w h)"

text \<open>Requests and surroundings for concrete evaluations, with images named by numbers.\<close>

definition export_request :: "DesignObject list \<Rightarrow> export_body" where
  "export_request objs =
     \<lparr> b_size = Some \<lparr> s_width = 2112, s_height = 1152 \<rparr>, b_objects = Array objs \<rparr>"

definition env_where :: "(string \<Rightarrow> nat option) \<Rightarrow> (nat canvas \<Rightarrow> bytes option) \<Rightarrow> nat env" where
  "env_where f tb = \<lparr> fetch_image = f, toBuffer = tb, sharp_png = (\<lambda>b. Some b) \<rparr>"

definition is_error :: "response \<Rightarrow> bool" where
  "is_error r = (case r of Json status msg \<Rightarrow> True | Png b \<Rightarrow> False)"

section \<open>Verified properties\<close>

subsection \<open>History: the invariant\<close>

text \<open>
  C9. The invariant \<open>0 \<le> cursor < entries.length\<close> holds in the initial state and is
  preserved by \<open>saveHistory\<close>, \<open>undo\<close> and \<open>redo\<close>; \<open>saveHistory\<close> even establishes it
  from any state. Under the invariant, reading \<open>history[historyStep]\<close> finds an entry.
\<close>

theorem history_inv_preserved:
  "history_inv initial_App
   \<and> history_inv (saveHistory c s)
   \<and> (history_inv s \<longrightarrow> history_inv (undo s) \<and> history_inv (redo s))
   \<and> (history_inv s \<longrightarrow> js_index (history s) (historyStep s) \<noteq> None)"
  by (auto simp: history_inv_def initial_App_def saveHistory_def undo_def redo_def js_index_def
      Let_def)

theorem history_inv_preserved_witness:
  "history_inv (saveHistory [image_at ''a'' 0 0] initial_App)
   \<and> history_inv (undo (saveHistory [image_at ''a'' 0 0] initial_App))
   \<and> history_inv (redo (undo (saveHistory [image_at ''a'' 0 0] initial_App)))"
  using history_inv_preserved [of "[image_at ''a'' 0 0]" initial_App]
        history_inv_preserved [of "[]" "saveHistory [image_at ''a'' 0 0] initial_App"]
        history_inv_preserved [of "[]" "undo (saveHistory [image_at ''a'' 0 0] initial_App)"]
  by simp

subsection \<open>History: commit, undo, redo\<close>

lemma commits_top:
  "historyStep s + 1 = length (history s) \<Longrightarrow>
     history (commits cs s) = history s @ cs
   \<and> historyStep (commits cs s) + 1 = length (history s) + length cs
   \<and> selectedIds (commits cs s) = selectedIds s
   \<and> (cs \<noteq> [] \<longrightarrow> objects (commits cs s) = Some (last cs))"
proof (induction cs arbitrary: s)
  case Nil
  then show ?case by (simp add: commits_def)
next
  case (Cons c cs)
  have top: "historyStep (saveHistory c s) + 1 = length (history (saveHistory c s))"
    by (simp add: saveHistory_def Let_def)
  have h: "history (saveHistory c s) = history s @ [c]"
    using Cons.prems by (simp add: saveHistory_def Let_def)
  have o: "objects (saveHistory c s) = Some c" "selectedIds (saveHistory c s) = selectedIds s"
    by (simp_all add: saveHistory_def Let_def)
  have step: "commits (c # cs) s = commits cs (saveHistory c s)"
    by (simp add: commits_def)
  from Cons.IH [OF top] h o step show ?case
    by (cases cs) (simp_all add: commits_def)
qed

lemma undo_pow:
  "historyStep s < length (history s) \<Longrightarrow> k \<le> historyStep s \<Longrightarrow> 0 < k \<Longrightarrow>
   (undo ^^ k) s = s\<lparr> historyStep := historyStep s - k,
                      objects := Some (history s ! (historyStep s - k)),
                      selectedIds := [] \<rparr>"
proof (induction k)
  case 0
  then show ?case by simp
next
  case (Suc k)
  show ?case
  proof (cases "k = 0")
    case True
    with Suc.prems show ?thesis by (simp add: undo_def js_index_def)
  next
    case False
    with Suc have "(undo ^^ k) s = s\<lparr> historyStep := historyStep s - k,
                      objects := Some (history s ! (historyStep s - k)),
                      selectedIds := [] \<rparr>" (is "_ = ?t") by simp
    then have "(undo ^^ Suc k) s = undo ?t" by simp
    also from Suc.prems have "undo ?t = s\<lparr> historyStep := historyStep s - Suc k,
                      objects := Some (history s ! (historyStep s - Suc k)),
                      selectedIds := [] \<rparr>"
      by (simp add: undo_def js_index_def)
    finally show ?thesis .
  qed
qed

lemma undo_bottom: "historyStep s = 0 \<Longrightarrow> (undo ^^ m) s = s"
  by (induction m) (simp_all add: undo_def)

lemma redo_pow:
  "historyStep s + k < length (history s) \<Longrightarrow> 0 < k \<Longrightarrow>
   (redo ^^ k) s = s\<lparr> historyStep := historyStep s + k,
                      objects := Some (history s ! (historyStep s + k)),
                      selectedIds := [] \<rparr>"
proof (induction k)
  case 0
  then show ?case by simp
next
  case (Suc k)
  show ?case
  proof (cases "k = 0")
    case True
    with Suc.prems show ?thesis by (simp add: redo_def js_index_def)
  next
    case False
    with Suc have "(redo ^^ k) s = s\<lparr> historyStep := historyStep s + k,
                      objects := Some (history s ! (historyStep s + k)),
                      selectedIds := [] \<rparr>" (is "_ = ?t") by simp
    then have "(redo ^^ Suc k) s = redo ?t" by simp
    also from Suc.prems have "redo ?t = s\<lparr> historyStep := historyStep s + Suc k,
                      objects := Some (history s ! (historyStep s + Suc k)),
                      selectedIds := [] \<rparr>"
      by (simp add: redo_def js_index_def)
    finally show ?thesis .
  qed
qed

lemma redo_top: "historyStep s + 1 = length (history s) \<Longrightarrow> (redo ^^ m) s = s"
  by (induction m) (simp_all add: redo_def)


lemma commits_initial:
  "history (commits cs initial_App) = [] # cs"
  "historyStep (commits cs initial_App) = length cs"
  using commits_top [of initial_App cs] by (simp_all add: initial_App_def)

text \<open>
  C4 (amended). After \<open>N \<ge> 1\<close> commits from the initial history, \<open>N\<close> undos give the
  empty object list and further undos change nothing; \<open>N\<close> redos then restore the last
  committed list and further redos change nothing; a commit after \<open>k < N\<close> undos keeps
  the initial entry and the first \<open>N - k\<close> commits, drops exactly the \<open>k\<close> entries
  beyond the cursor, and leaves nothing to redo.
\<close>

theorem history_commit_undo_redo:
  assumes "length cs = N" and "1 \<le> N"
  shows "objects ((undo ^^ N) (commits cs initial_App)) = Some []
       \<and> historyStep ((undo ^^ N) (commits cs initial_App)) = 0
       \<and> (undo ^^ (N + m)) (commits cs initial_App) = (undo ^^ N) (commits cs initial_App)
       \<and> objects ((redo ^^ N) ((undo ^^ N) (commits cs initial_App))) = Some (last cs)
       \<and> historyStep ((redo ^^ N) ((undo ^^ N) (commits cs initial_App))) = N
       \<and> (redo ^^ (N + m)) ((undo ^^ N) (commits cs initial_App))
           = (redo ^^ N) ((undo ^^ N) (commits cs initial_App))
       \<and> (k < N \<longrightarrow>
            history (saveHistory c ((undo ^^ k) (commits cs initial_App)))
              = [] # take (N - k) cs @ [c]
          \<and> discarded c ((undo ^^ k) (commits cs initial_App)) = k
          \<and> redo (saveHistory c ((undo ^^ k) (commits cs initial_App)))
              = saveHistory c ((undo ^^ k) (commits cs initial_App)))"
proof -
  let ?s0 = "commits cs initial_App"
  let ?u = "(undo ^^ N) ?s0"
  let ?r = "(redo ^^ N) ?u"
  have h0: "history ?s0 = [] # cs" and st0: "historyStep ?s0 = N"
    using assms by (simp_all add: commits_initial)
  have ne: "cs \<noteq> []" using assms by auto
  have u: "?u = ?s0\<lparr> historyStep := 0, objects := Some [], selectedIds := [] \<rparr>"
    using undo_pow [of ?s0 N] assms by (simp add: h0 st0)
  have c1: "objects ?u = Some []" and c2: "historyStep ?u = 0" and hu: "history ?u = [] # cs"
    by (simp_all add: u h0)
  have "(undo ^^ (N + m)) ?s0 = (undo ^^ m) ?u"
    by (simp add: add.commute [of N m] funpow_add)
  then have c3: "(undo ^^ (N + m)) ?s0 = ?u"
    using undo_bottom [OF c2] by simp
  have r: "?r = ?u\<lparr> historyStep := N, objects := Some (([] # cs) ! N), selectedIds := [] \<rparr>"
    using redo_pow [of ?u N] assms by (simp add: hu c2)
  have lastN: "([] # cs) ! N = last cs"
    using assms ne by (cases N) (simp_all add: last_conv_nth)
  have c4: "objects ?r = Some (last cs)" and c5: "historyStep ?r = N"
    and hr: "history ?r = [] # cs"
    by (simp_all add: r lastN hu)
  have "(redo ^^ (N + m)) ?u = (redo ^^ m) ?r"
    by (simp add: add.commute [of N m] funpow_add)
  then have c6: "(redo ^^ (N + m)) ?u = ?r"
    using redo_top [of ?r m] assms by (simp add: c5 hr)
  have c7: "history (saveHistory c ((undo ^^ k) ?s0)) = [] # take (N - k) cs @ [c]
          \<and> discarded c ((undo ^^ k) ?s0) = k
          \<and> redo (saveHistory c ((undo ^^ k) ?s0)) = saveHistory c ((undo ^^ k) ?s0)"
    if "k < N"
  proof -
    let ?sk = "(undo ^^ k) ?s0"
    have hk: "history ?sk = [] # cs \<and> historyStep ?sk = N - k"
    proof (cases "k = 0")
      case True
      then show ?thesis by (simp add: h0 st0)
    next
      case False
      then show ?thesis
        using undo_pow [of ?s0 k] that assms by (simp add: h0 st0)
    qed
    have suc: "Suc (N - k) = Suc N - k" using that by simp
    have hs: "history (saveHistory c ?sk) = [] # take (N - k) cs @ [c]"
      using hk by (simp add: saveHistory_def Let_def)
    have d: "discarded c ?sk = k"
      using that assms by (simp add: discarded_def hs hk)
    have "historyStep (saveHistory c ?sk) + 1 = length (history (saveHistory c ?sk))"
      by (simp add: saveHistory_def Let_def)
    then have "redo (saveHistory c ?sk) = saveHistory c ?sk"
      by (simp add: redo_def)
    with hs d show ?thesis by simp
  qed
  from c1 c2 c3 c4 c5 c6 c7 show ?thesis by blast
qed

theorem history_commit_undo_redo_witness:
  "objects ((undo ^^ 3) (commits [[image_at ''a'' 0 0], [image_at ''b'' 0 0], [image_at ''c'' 0 0]] initial_App)) = Some []
   \<and> objects ((redo ^^ 3) ((undo ^^ 3) (commits [[image_at ''a'' 0 0], [image_at ''b'' 0 0], [image_at ''c'' 0 0]] initial_App)))
       = Some [image_at ''c'' 0 0]
   \<and> discarded [] ((undo ^^ 1) (commits [[image_at ''a'' 0 0], [image_at ''b'' 0 0], [image_at ''c'' 0 0]] initial_App)) = 1"
  using history_commit_undo_redo
          [of "[[image_at ''a'' 0 0], [image_at ''b'' 0 0], [image_at ''c'' 0 0]]" 3 0 1 "[]"]
  by simp

text \<open>
  The specification as written has the commit drop \<open>N - k\<close> entries. With three commits and one
  undo, one entry lies beyond the cursor and one is dropped, not two.
\<close>

theorem commit_discards_counterexample:
  "discarded [] ((undo ^^ 1) (commits [[image_at ''a'' 0 0], [image_at ''b'' 0 0], [image_at ''c'' 0 0]] initial_App))
     \<noteq> 3 - 1"
  by (simp add: discarded_def commits_def saveHistory_def undo_def js_index_def initial_App_def Let_def)

subsection \<open>Marquee selection\<close>

lemma marquee_hit_aabb: "marquee_hit sb obj \<longleftrightarrow> aabb_overlap (marquee_rect sb) (unrotated_box obj)"
  by (auto simp: marquee_hit_def marquee_rect_def unrotated_box_def Let_def)

text \<open>
  C8. On release of a marquee, every object whose un-rotated box
  \<open>(x, y, width * scaleX, height * scaleY)\<close> overlaps the marquee rectangle is selected:
  when at least one object overlaps, the selection becomes the ids of exactly the
  overlapping objects, in list order, and the marquee is cleared.
\<close>

theorem marquee_selects_hits:
  assumes "selectionBox s = Some sb" and "objects s = Some objs"
  shows "\<exists>s'. handleMouseUp s = Inr s'
           \<and> selectionBox s' = None
           \<and> (\<forall>obj \<in> set objs. aabb_overlap (marquee_rect sb) (unrotated_box obj)
                 \<longrightarrow> o_id obj \<in> set (selectedIds s'))
           \<and> ((\<exists>obj \<in> set objs. aabb_overlap (marquee_rect sb) (unrotated_box obj))
                 \<longrightarrow> selectedIds s'
                       = map o_id (filter (\<lambda>obj. aabb_overlap (marquee_rect sb) (unrotated_box obj)) objs))"
proof -
  let ?hits = "filter (marquee_hit sb) objs"
  have same: "filter (\<lambda>obj. aabb_overlap (marquee_rect sb) (unrotated_box obj)) objs = ?hits"
    by (simp add: marquee_hit_aabb [abs_def])
  show ?thesis
  proof (cases "?hits = []")
    case True
    then have none: "\<forall>obj \<in> set objs. \<not> marquee_hit sb obj"
      by (simp add: filter_empty_conv)
    from assms True have "handleMouseUp s = Inr (s\<lparr> isPanning := False, selectionBox := None \<rparr>)"
      by (simp add: handleMouseUp_def Let_def)
    with none show ?thesis
      by (simp add: marquee_hit_aabb)
  next
    case False
    with assms have "handleMouseUp s
        = Inr (s\<lparr> isPanning := False, selectedIds := map o_id ?hits, selectionBox := None \<rparr>)"
      by (simp add: handleMouseUp_def Let_def)
    then show ?thesis
      by (auto simp: same marquee_hit_aabb)
  qed
qed

theorem marquee_selects_hits_witness:
  "\<exists>s'. handleMouseUp (initial_App\<lparr> objects := Some [image_at ''a'' 10 10, image_at ''b'' 500 500],
                                     selectionBox := Some (marquee 0 0 50 50) \<rparr>) = Inr s'
        \<and> selectedIds s' = [''a'']"
  using marquee_selects_hits
          [of "initial_App\<lparr> objects := Some [image_at ''a'' 10 10, image_at ''b'' 500 500],
                             selectionBox := Some (marquee 0 0 50 50) \<rparr>"
              "marquee 0 0 50 50" "[image_at ''a'' 10 10, image_at ''b'' 500 500]"]
  by (auto simp: initial_App_def image_at_def marquee_def marquee_rect_def unrotated_box_def)

text \<open>
  C10. When no object's un-rotated box overlaps the marquee, the release leaves the
  selection as it was; only the marquee and the panning flag are reset.
\<close>

theorem marquee_miss_keeps_selection:
  assumes "selectionBox s = Some sb" and "objects s = Some objs"
    and "\<forall>obj \<in> set objs. \<not> aabb_overlap (marquee_rect sb) (unrotated_box obj)"
  shows "handleMouseUp s = Inr (s\<lparr> isPanning := False, selectionBox := None \<rparr>)
       \<and> (\<forall>s'. handleMouseUp s = Inr s' \<longrightarrow> selectedIds s' = selectedIds s)"
proof -
  from assms(3) have "filter (marquee_hit sb) objs = []"
    by (simp add: filter_empty_conv marquee_hit_aabb)
  with assms(1,2) have "handleMouseUp s = Inr (s\<lparr> isPanning := False, selectionBox := None \<rparr>)"
    by (simp add: handleMouseUp_def Let_def)
  then show ?thesis by simp
qed

theorem marquee_miss_keeps_selection_witness:
  "\<exists>s'. handleMouseUp (initial_App\<lparr> objects := Some [image_at ''a'' 10 10, image_at ''b'' 500 500],
                                     selectedIds := [''b''],
                                     selectionBox := Some (marquee 200 200 50 50) \<rparr>) = Inr s'
        \<and> selectedIds s' = [''b'']"
  using marquee_miss_keeps_selection
          [of "initial_App\<lparr> objects := Some [image_at ''a'' 10 10, image_at ''b'' 500 500],
                             selectedIds := [''b''],
                             selectionBox := Some (marquee 200 200 50 50) \<rparr>"
              "marquee 200 200 50 50" "[image_at ''a'' 10 10, image_at ''b'' 500 500]"]
  by (simp add: initial_App_def image_at_def marquee_def marquee_rect_def unrotated_box_def)

subsection \<open>Oriented corners\<close>

lemma trig_sq: "u * (cos t * cos t) + u * (sin t * sin t) = (u::real)"
proof -
  have "u * (cos t * cos t) + u * (sin t * sin t) = u * (cos t * cos t + sin t * sin t)"
    by (simp only: distrib_left)
  also have "\<dots> = u"
    by (simp only: sin_cos_squared_add3 mult_1_right)
  finally show ?thesis .
qed

lemma trig_sq': "u * (sin t * sin t) + u * (cos t * cos t) = (u::real)"
  using trig_sq [of u t] by (simp add: add.commute)

lemma getRotatedCorners_origin:
  "getRotatedCorners obj buffer = oriented_corners_about (object_origin obj) obj buffer"
  by (simp add: getRotatedCorners_def oriented_corners_about_def object_origin_def
      inflated_box_def rect_polygon_def rotate_about_def Let_def algebra_simps)

lemma getRotatedCorners_edges:
  fixes obj buffer
  defines "cs \<equiv> getRotatedCorners obj buffer"
    and "W \<equiv> o_width obj * \<bar>o_scaleX obj\<bar> + 2 * buffer"
    and "H \<equiv> o_height obj * \<bar>o_scaleY obj\<bar> + 2 * buffer"
    and "t \<equiv> o_rotation obj * pi / 180"
  shows "edge cs 0 = \<lparr> p_x = W * cos t, p_y = W * sin t \<rparr>"
    and "edge cs 1 = \<lparr> p_x = - (H * sin t), p_y = H * cos t \<rparr>"
    and "edge cs 2 = \<lparr> p_x = - (W * cos t), p_y = - (W * sin t) \<rparr>"
    and "edge cs 3 = \<lparr> p_x = H * sin t, p_y = - (H * cos t) \<rparr>"
  by (simp_all add: cs_def W_def H_def t_def edge_def getRotatedCorners_def Let_def algebra_simps)

lemma getRotatedCorners_with_exact:
  "getRotatedCorners obj buffer = getRotatedCorners_with cos sin pi obj buffer"
  by (simp add: getRotatedCorners_def getRotatedCorners_with_def)

lemma abs_comb_le:
  fixes a b dc ds eps :: real
  assumes "\<bar>dc\<bar> \<le> eps" and "\<bar>ds\<bar> \<le> eps"
  shows "\<bar>a * dc\<bar> \<le> eps * (\<bar>a\<bar> + \<bar>b\<bar>)"
    and "\<bar>a * dc - b * ds\<bar> \<le> eps * (\<bar>a\<bar> + \<bar>b\<bar>)"
    and "\<bar>a * dc + b * ds\<bar> \<le> eps * (\<bar>a\<bar> + \<bar>b\<bar>)"
    and "\<bar>b * ds\<bar> \<le> eps * (\<bar>a\<bar> + \<bar>b\<bar>)"
proof -
  have e: "0 \<le> eps" using assms(1) by linarith
  have 1: "\<bar>a * dc\<bar> \<le> \<bar>a\<bar> * eps"
    using assms(1) by (simp add: abs_mult mult_left_mono)
  have 2: "\<bar>b * ds\<bar> \<le> \<bar>b\<bar> * eps"
    using assms(2) by (simp add: abs_mult mult_left_mono)
  have 3: "0 \<le> \<bar>a\<bar> * eps" "0 \<le> \<bar>b\<bar> * eps" using e by simp_all
  have s: "eps * (\<bar>a\<bar> + \<bar>b\<bar>) = \<bar>a\<bar> * eps + \<bar>b\<bar> * eps" by (simp add: algebra_simps)
  show "\<bar>a * dc\<bar> \<le> eps * (\<bar>a\<bar> + \<bar>b\<bar>)" using 1 3 s by linarith
  show "\<bar>b * ds\<bar> \<le> eps * (\<bar>a\<bar> + \<bar>b\<bar>)" using 2 3 s by linarith
  show "\<bar>a * dc - b * ds\<bar> \<le> eps * (\<bar>a\<bar> + \<bar>b\<bar>)" using 1 2 s by linarith
  show "\<bar>a * dc + b * ds\<bar> \<le> eps * (\<bar>a\<bar> + \<bar>b\<bar>)" using 1 2 s by linarith
qed

lemma close_toI:
  "\<bar>a - a'\<bar> \<le> tol \<Longrightarrow> \<bar>b - b'\<bar> \<le> tol \<Longrightarrow>
   close_to tol \<lparr> p_x = a, p_y = b \<rparr> \<lparr> p_x = a', p_y = b' \<rparr>"
  by (simp add: close_to_def)

lemma getRotatedCorners_with_zero:
  "getRotatedCorners_with Math_cos Math_sin Math_PI obj 0 =
     (let c = Math_cos (o_rotation obj * Math_PI / 180);
          s = Math_sin (o_rotation obj * Math_PI / 180);
          W = o_width obj * \<bar>o_scaleX obj\<bar>;
          H = o_height obj * \<bar>o_scaleY obj\<bar>
      in [ \<lparr> p_x = o_x obj, p_y = o_y obj \<rparr>,
           \<lparr> p_x = W * c + o_x obj, p_y = W * s + o_y obj \<rparr>,
           \<lparr> p_x = W * c - H * s + o_x obj, p_y = W * s + H * c + o_y obj \<rparr>,
           \<lparr> p_x = - (H * s) + o_x obj, p_y = H * c + o_y obj \<rparr> ])"
  by (simp add: getRotatedCorners_with_def Let_def)

lemma getRotatedCorners_with_close:
  fixes obj Math_cos Math_sin Math_PI c0 s0 eps
  defines "W \<equiv> o_width obj * \<bar>o_scaleX obj\<bar>"
    and "H \<equiv> o_height obj * \<bar>o_scaleY obj\<bar>"
  assumes "\<bar>Math_cos (o_rotation obj * Math_PI / 180) - c0\<bar> \<le> eps"
    and "\<bar>Math_sin (o_rotation obj * Math_PI / 180) - s0\<bar> \<le> eps"
  shows "list_all2 (close_to (eps * (\<bar>W\<bar> + \<bar>H\<bar>)))
           (getRotatedCorners_with Math_cos Math_sin Math_PI obj 0)
           [ \<lparr> p_x = o_x obj, p_y = o_y obj \<rparr>,
             \<lparr> p_x = o_x obj + W * c0, p_y = o_y obj + W * s0 \<rparr>,
             \<lparr> p_x = o_x obj + W * c0 - H * s0, p_y = o_y obj + W * s0 + H * c0 \<rparr>,
             \<lparr> p_x = o_x obj - H * s0, p_y = o_y obj + H * c0 \<rparr> ]"
proof -
  let ?c = "Math_cos (o_rotation obj * Math_PI / 180)"
  let ?s = "Math_sin (o_rotation obj * Math_PI / 180)"
  let ?tol = "eps * (\<bar>W\<bar> + \<bar>H\<bar>)"
  let ?x = "o_x obj" and ?y = "o_y obj"
  have e: "0 \<le> ?tol"
    using assms(3) by (simp add: zero_le_mult_iff) linarith
  note f = abs_comb_le [where a = W and b = H and dc = "?c - c0" and ds = "?s - s0",
      OF assms(3,4)]
  note g = abs_comb_le [where a = W and b = H and dc = "?s - s0" and ds = "?c - c0",
      OF assms(4,3)]
  have q1: "W * ?c + ?x - (?x + W * c0) = W * (?c - c0)"
    and q2: "W * ?s + ?y - (?y + W * s0) = W * (?s - s0)"
    and q3: "W * ?c - H * ?s + ?x - (?x + W * c0 - H * s0) = W * (?c - c0) - H * (?s - s0)"
    and q4: "W * ?s + H * ?c + ?y - (?y + W * s0 + H * c0) = W * (?s - s0) + H * (?c - c0)"
    and q5: "- (H * ?s) + ?x - (?x - H * s0) = - (H * (?s - s0))"
    and q6: "H * ?c + ?y - (?y + H * c0) = H * (?c - c0)"
    by (simp_all add: algebra_simps)
  have k0: "close_to ?tol \<lparr> p_x = ?x, p_y = ?y \<rparr> \<lparr> p_x = ?x, p_y = ?y \<rparr>"
    using e by (simp add: close_to_def)
  have k1: "close_to ?tol \<lparr> p_x = W * ?c + ?x, p_y = W * ?s + ?y \<rparr>
              \<lparr> p_x = ?x + W * c0, p_y = ?y + W * s0 \<rparr>"
    by (rule close_toI) (simp_all only: q1 q2 f(1) g(1))
  have k2: "close_to ?tol \<lparr> p_x = W * ?c - H * ?s + ?x, p_y = W * ?s + H * ?c + ?y \<rparr>
              \<lparr> p_x = ?x + W * c0 - H * s0, p_y = ?y + W * s0 + H * c0 \<rparr>"
    by (rule close_toI) (simp_all only: q3 q4 f(2) g(3))
  have k3: "close_to ?tol \<lparr> p_x = - (H * ?s) + ?x, p_y = H * ?c + ?y \<rparr>
              \<lparr> p_x = ?x - H * s0, p_y = ?y + H * c0 \<rparr>"
    by (rule close_toI) (simp_all only: q5 q6 abs_minus_cancel f(4) g(4))
  show ?thesis
    unfolding getRotatedCorners_with_zero Let_def W_def [symmetric] H_def [symmetric]
    using k0 k1 k2 k3 by (simp only: list_all2_Cons list_all2_Nil simp_thms)
qed

text \<open>
  C2 (amended). \<open>getRotatedCorners\<close> returns the four corners of the object's box of size
  \<open>width * |scaleX| + 2 * buffer\<close> by \<open>height * |scaleY| + 2 * buffer\<close>, rotated by
  \<open>rotation\<close> degrees about the object's origin \<open>(x, y)\<close>, the top-left corner of the
  box before inflation: the sides have those lengths, neighbouring sides are
  perpendicular, and the corners wind the same way at every corner. With zero buffer and
  rotation 0, 90, 180 or 270 degrees the corners are those of the axis-aligned box that
  has \<open>(x, y)\<close> as the corresponding corner, within a tolerance: when the cosine and the
  sine the code computes at the angle are within \<open>eps\<close> of the exact values, every
  coordinate is within \<open>eps\<close> times the sum of the box's width and height.
\<close>

theorem getRotatedCorners_rectangle:
  fixes obj :: DesignObject and buffer eps Math_PI :: real
    and Math_cos Math_sin :: "real \<Rightarrow> real"
  defines "cs \<equiv> getRotatedCorners obj buffer"
    and "W \<equiv> o_width obj * \<bar>o_scaleX obj\<bar>"
    and "H \<equiv> o_height obj * \<bar>o_scaleY obj\<bar>"
  defines "tol \<equiv> eps * (\<bar>W\<bar> + \<bar>H\<bar>)"
  shows "cs = oriented_corners_about (object_origin obj) obj buffer
       \<and> cs = getRotatedCorners_with cos sin pi obj buffer
       \<and> length cs = 4
       \<and> dot (edge cs 0) (edge cs 0) = (W + 2 * buffer) * (W + 2 * buffer)
       \<and> dot (edge cs 1) (edge cs 1) = (H + 2 * buffer) * (H + 2 * buffer)
       \<and> dot (edge cs 2) (edge cs 2) = (W + 2 * buffer) * (W + 2 * buffer)
       \<and> dot (edge cs 3) (edge cs 3) = (H + 2 * buffer) * (H + 2 * buffer)
       \<and> dot (edge cs 0) (edge cs 1) = 0 \<and> dot (edge cs 1) (edge cs 2) = 0
       \<and> dot (edge cs 2) (edge cs 3) = 0 \<and> dot (edge cs 3) (edge cs 0) = 0
       \<and> cross (edge cs 0) (edge cs 1) = (W + 2 * buffer) * (H + 2 * buffer)
       \<and> cross (edge cs 1) (edge cs 2) = (W + 2 * buffer) * (H + 2 * buffer)
       \<and> cross (edge cs 2) (edge cs 3) = (W + 2 * buffer) * (H + 2 * buffer)
       \<and> cross (edge cs 3) (edge cs 0) = (W + 2 * buffer) * (H + 2 * buffer)
       \<and> (\<bar>Math_cos (0 * Math_PI / 180) - 1\<bar> \<le> eps \<and> \<bar>Math_sin (0 * Math_PI / 180) - 0\<bar> \<le> eps
            \<longrightarrow> list_all2 (close_to tol)
                  (getRotatedCorners_with Math_cos Math_sin Math_PI (obj\<lparr> o_rotation := 0 \<rparr>) 0)
                  (rect_polygon (o_x obj) (o_y obj) W H))
       \<and> (\<bar>Math_cos (90 * Math_PI / 180) - 0\<bar> \<le> eps \<and> \<bar>Math_sin (90 * Math_PI / 180) - 1\<bar> \<le> eps
            \<longrightarrow> list_all2 (close_to tol)
                  (getRotatedCorners_with Math_cos Math_sin Math_PI (obj\<lparr> o_rotation := 90 \<rparr>) 0)
                  [ \<lparr> p_x = o_x obj, p_y = o_y obj \<rparr>, \<lparr> p_x = o_x obj, p_y = o_y obj + W \<rparr>,
                    \<lparr> p_x = o_x obj - H, p_y = o_y obj + W \<rparr>, \<lparr> p_x = o_x obj - H, p_y = o_y obj \<rparr> ])
       \<and> (\<bar>Math_cos (180 * Math_PI / 180) - (- 1)\<bar> \<le> eps \<and> \<bar>Math_sin (180 * Math_PI / 180) - 0\<bar> \<le> eps
            \<longrightarrow> list_all2 (close_to tol)
                  (getRotatedCorners_with Math_cos Math_sin Math_PI (obj\<lparr> o_rotation := 180 \<rparr>) 0)
                  [ \<lparr> p_x = o_x obj, p_y = o_y obj \<rparr>, \<lparr> p_x = o_x obj - W, p_y = o_y obj \<rparr>,
                    \<lparr> p_x = o_x obj - W, p_y = o_y obj - H \<rparr>, \<lparr> p_x = o_x obj, p_y = o_y obj - H \<rparr> ])
       \<and> (\<bar>Math_cos (270 * Math_PI / 180) - 0\<bar> \<le> eps \<and> \<bar>Math_sin (270 * Math_PI / 180) - (- 1)\<bar> \<le> eps
            \<longrightarrow> list_all2 (close_to tol)
                  (getRotatedCorners_with Math_cos Math_sin Math_PI (obj\<lparr> o_rotation := 270 \<rparr>) 0)
                  [ \<lparr> p_x = o_x obj, p_y = o_y obj \<rparr>, \<lparr> p_x = o_x obj, p_y = o_y obj - W \<rparr>,
                    \<lparr> p_x = o_x obj + H, p_y = o_y obj - W \<rparr>, \<lparr> p_x = o_x obj + H, p_y = o_y obj \<rparr> ])"
proof -
  let ?t = "o_rotation obj * pi / 180"
  let ?W = "W + 2 * buffer" and ?H = "H + 2 * buffer"
  have e: "edge cs 0 = \<lparr> p_x = ?W * cos ?t, p_y = ?W * sin ?t \<rparr>"
          "edge cs 1 = \<lparr> p_x = - (?H * sin ?t), p_y = ?H * cos ?t \<rparr>"
          "edge cs 2 = \<lparr> p_x = - (?W * cos ?t), p_y = - (?W * sin ?t) \<rparr>"
          "edge cs 3 = \<lparr> p_x = ?H * sin ?t, p_y = - (?H * cos ?t) \<rparr>"
    unfolding cs_def W_def H_def by (rule getRotatedCorners_edges)+
  have sqW: "(?W * cos ?t) * (?W * cos ?t) + (?W * sin ?t) * (?W * sin ?t) = ?W * ?W"
    using trig_sq [of "?W * ?W" ?t] by (simp add: mult_ac)
  have sqH: "(?H * sin ?t) * (?H * sin ?t) + (?H * cos ?t) * (?H * cos ?t) = ?H * ?H"
    using trig_sq' [of "?H * ?H" ?t] by (simp add: mult_ac)
  have crWH: "(?W * cos ?t) * (?H * cos ?t) + (?W * sin ?t) * (?H * sin ?t) = ?W * ?H"
    using trig_sq [of "?W * ?H" ?t] by (simp add: mult_ac)
  have crHW: "(?H * sin ?t) * (?W * sin ?t) + (?H * cos ?t) * (?W * cos ?t) = ?W * ?H"
    using trig_sq' [of "?W * ?H" ?t] by (simp add: mult_ac)
  have c1: "cs = oriented_corners_about (object_origin obj) obj buffer"
    unfolding cs_def by (rule getRotatedCorners_origin)
  have c1': "cs = getRotatedCorners_with cos sin pi obj buffer"
    unfolding cs_def by (rule getRotatedCorners_with_exact)
  have c2: "length cs = 4"
    by (simp add: cs_def getRotatedCorners_def Let_def)
  have d0: "dot (edge cs 0) (edge cs 0) = ?W * ?W" "dot (edge cs 2) (edge cs 2) = ?W * ?W"
    using sqW by (simp_all add: e dot_def del: One_nat_def)
  have d1: "dot (edge cs 1) (edge cs 1) = ?H * ?H" "dot (edge cs 3) (edge cs 3) = ?H * ?H"
    using sqH by (simp_all add: e dot_def del: One_nat_def)
  have p: "dot (edge cs 0) (edge cs 1) = 0" "dot (edge cs 1) (edge cs 2) = 0"
          "dot (edge cs 2) (edge cs 3) = 0" "dot (edge cs 3) (edge cs 0) = 0"
    by (simp_all add: e dot_def mult_ac del: One_nat_def)
  have x: "cross (edge cs 0) (edge cs 1) = ?W * ?H" "cross (edge cs 2) (edge cs 3) = ?W * ?H"
    using crWH by (simp_all add: e cross_def del: One_nat_def)
  have x': "cross (edge cs 1) (edge cs 2) = ?W * ?H" "cross (edge cs 3) (edge cs 0) = ?W * ?H"
    using crHW by (simp_all add: e cross_def del: One_nat_def)
  have r0: "list_all2 (close_to tol)
                  (getRotatedCorners_with Math_cos Math_sin Math_PI (obj\<lparr> o_rotation := 0 \<rparr>) 0)
                  (rect_polygon (o_x obj) (o_y obj) W H)"
    if "\<bar>Math_cos (0 * Math_PI / 180) - 1\<bar> \<le> eps \<and> \<bar>Math_sin (0 * Math_PI / 180) - 0\<bar> \<le> eps"
    using that getRotatedCorners_with_close
            [of Math_cos "obj\<lparr> o_rotation := 0 \<rparr>" Math_PI "1" eps Math_sin "0"]
    by (simp add: tol_def W_def H_def rect_polygon_def)
  have r90: "list_all2 (close_to tol)
                  (getRotatedCorners_with Math_cos Math_sin Math_PI (obj\<lparr> o_rotation := 90 \<rparr>) 0)
                  [ \<lparr> p_x = o_x obj, p_y = o_y obj \<rparr>, \<lparr> p_x = o_x obj, p_y = o_y obj + W \<rparr>,
                    \<lparr> p_x = o_x obj - H, p_y = o_y obj + W \<rparr>, \<lparr> p_x = o_x obj - H, p_y = o_y obj \<rparr> ]"
    if "\<bar>Math_cos (90 * Math_PI / 180) - 0\<bar> \<le> eps \<and> \<bar>Math_sin (90 * Math_PI / 180) - 1\<bar> \<le> eps"
    using that getRotatedCorners_with_close
            [of Math_cos "obj\<lparr> o_rotation := 90 \<rparr>" Math_PI "0" eps Math_sin "1"]
    by (simp add: tol_def W_def H_def)
  have r180: "list_all2 (close_to tol)
                  (getRotatedCorners_with Math_cos Math_sin Math_PI (obj\<lparr> o_rotation := 180 \<rparr>) 0)
                  [ \<lparr> p_x = o_x obj, p_y = o_y obj \<rparr>, \<lparr> p_x = o_x obj - W, p_y = o_y obj \<rparr>,
                    \<lparr> p_x = o_x obj - W, p_y = o_y obj - H \<rparr>, \<lparr> p_x = o_x obj, p_y = o_y obj - H \<rparr> ]"
    if "\<bar>Math_cos (180 * Math_PI / 180) - (- 1)\<bar> \<le> eps \<and> \<bar>Math_sin (180 * Math_PI / 180) - 0\<bar> \<le> eps"
    using that getRotatedCorners_with_close
            [of Math_cos "obj\<lparr> o_rotation := 180 \<rparr>" Math_PI "- 1" eps Math_sin "0"]
    by (simp add: tol_def W_def H_def)
  have r270: "list_all2 (close_to tol)
                  (getRotatedCorners_with Math_cos Math_sin Math_PI (obj\<lparr> o_rotation := 270 \<rparr>) 0)
                  [ \<lparr> p_x = o_x obj, p_y = o_y obj \<rparr>, \<lparr> p_x = o_x obj, p_y = o_y obj - W \<rparr>,
                    \<lparr> p_x = o_x obj + H, p_y = o_y obj - W \<rparr>, \<lparr> p_x = o_x obj + H, p_y = o_y obj \<rparr> ]"
    if "\<bar>Math_cos (270 * Math_PI / 180) - 0\<bar> \<le> eps \<and> \<bar>Math_sin (270 * Math_PI / 180) - (- 1)\<bar> \<le> eps"
    using that getRotatedCorners_with_close
            [of Math_cos "obj\<lparr> o_rotation := 270 \<rparr>" Math_PI "0" eps Math_sin "- 1"]
    by (simp add: tol_def W_def H_def)
  from c1 c1' c2 d0 d1 p x x' r0 r90 r180 r270 show ?thesis by blast
qed

theorem getRotatedCorners_rectangle_witness:
  "getRotatedCorners_with approx_cos approx_sin (355 / 113) ((image_at ''a'' 0 0)\<lparr> o_rotation := 180 \<rparr>) 0
     = [ \<lparr> p_x = 0, p_y = 0 \<rparr>, \<lparr> p_x = - 96, p_y = 96 / 10 ^ 16 \<rparr>,
         \<lparr> p_x = - 96 - 48 / 10 ^ 16, p_y = 96 / 10 ^ 16 - 48 \<rparr>, \<lparr> p_x = - (48 / 10 ^ 16), p_y = - 48 \<rparr> ]
   \<and> list_all2 (close_to (144 / 10 ^ 16))
        (getRotatedCorners_with approx_cos approx_sin (355 / 113) ((image_at ''a'' 0 0)\<lparr> o_rotation := 0 \<rparr>) 0)
        (rect_polygon 0 0 96 48)
   \<and> list_all2 (close_to (144 / 10 ^ 16))
        (getRotatedCorners_with approx_cos approx_sin (355 / 113) ((image_at ''a'' 0 0)\<lparr> o_rotation := 90 \<rparr>) 0)
        [ \<lparr> p_x = 0, p_y = 0 \<rparr>, \<lparr> p_x = 0, p_y = 96 \<rparr>, \<lparr> p_x = - 48, p_y = 96 \<rparr>, \<lparr> p_x = - 48, p_y = 0 \<rparr> ]
   \<and> list_all2 (close_to (144 / 10 ^ 16))
        (getRotatedCorners_with approx_cos approx_sin (355 / 113) ((image_at ''a'' 0 0)\<lparr> o_rotation := 180 \<rparr>) 0)
        [ \<lparr> p_x = 0, p_y = 0 \<rparr>, \<lparr> p_x = - 96, p_y = 0 \<rparr>, \<lparr> p_x = - 96, p_y = - 48 \<rparr>, \<lparr> p_x = 0, p_y = - 48 \<rparr> ]
   \<and> list_all2 (close_to (144 / 10 ^ 16))
        (getRotatedCorners_with approx_cos approx_sin (355 / 113) ((image_at ''a'' 0 0)\<lparr> o_rotation := 270 \<rparr>) 0)
        [ \<lparr> p_x = 0, p_y = 0 \<rparr>, \<lparr> p_x = 0, p_y = - 96 \<rparr>, \<lparr> p_x = 48, p_y = - 96 \<rparr>, \<lparr> p_x = 48, p_y = 0 \<rparr> ]"
proof -
  have v: "getRotatedCorners_with approx_cos approx_sin (355 / 113)
             ((image_at ''a'' 0 0)\<lparr> o_rotation := 180 \<rparr>) 0
     = [ \<lparr> p_x = 0, p_y = 0 \<rparr>, \<lparr> p_x = - 96, p_y = 96 / 10 ^ 16 \<rparr>,
         \<lparr> p_x = - 96 - 48 / 10 ^ 16, p_y = 96 / 10 ^ 16 - 48 \<rparr>, \<lparr> p_x = - (48 / 10 ^ 16), p_y = - 48 \<rparr> ]"
    by (simp add: getRotatedCorners_with_def approx_cos_def approx_sin_def image_at_def Let_def)
  have h: "\<bar>approx_cos (0 * (355 / 113) / 180) - 1\<bar> \<le> 1 / 10 ^ 16 \<and> \<bar>approx_sin (0 * (355 / 113) / 180) - 0\<bar> \<le> 1 / 10 ^ 16"
    "\<bar>approx_cos (90 * (355 / 113) / 180) - 0\<bar> \<le> 1 / 10 ^ 16 \<and> \<bar>approx_sin (90 * (355 / 113) / 180) - 1\<bar> \<le> 1 / 10 ^ 16"
    "\<bar>approx_cos (180 * (355 / 113) / 180) - (- 1)\<bar> \<le> 1 / 10 ^ 16 \<and> \<bar>approx_sin (180 * (355 / 113) / 180) - 0\<bar> \<le> 1 / 10 ^ 16"
    "\<bar>approx_cos (270 * (355 / 113) / 180) - 0\<bar> \<le> 1 / 10 ^ 16 \<and> \<bar>approx_sin (270 * (355 / 113) / 180) - (- 1)\<bar> \<le> 1 / 10 ^ 16"
    by (simp_all add: approx_cos_def approx_sin_def)
  show ?thesis
    using v h getRotatedCorners_rectangle
            [where Math_cos = approx_cos and Math_sin = approx_sin and Math_PI = "355 / 113"
               and eps = "1 / 10 ^ 16" and obj = "image_at ''a'' 0 0" and buffer = 0]
    by (simp add: image_at_def)
qed

text \<open>
  The specification as written rotates about the object's centre. An object at the origin, 96 by 48,
  turned by 180 degrees: the code returns the corners of the box from \<open>(-96, -48)\<close> to
  \<open>(0, 0)\<close>, a turn about the centre gives back the box from \<open>(0, 0)\<close> to \<open>(96, 48)\<close>.
\<close>

theorem getRotatedCorners_center_counterexample:
  "set (getRotatedCorners ((image_at ''a'' 0 0)\<lparr> o_rotation := 180 \<rparr>) 0)
     \<noteq> set (oriented_corners_about (object_center ((image_at ''a'' 0 0)\<lparr> o_rotation := 180 \<rparr>))
              ((image_at ''a'' 0 0)\<lparr> o_rotation := 180 \<rparr>) 0)"
proof -
  have "\<lparr> p_x = -96, p_y = 0 \<rparr>
          \<in> set (getRotatedCorners ((image_at ''a'' 0 0)\<lparr> o_rotation := 180 \<rparr>) 0)"
    by (simp add: getRotatedCorners_def image_at_def Let_def)
  moreover have "\<lparr> p_x = -96, p_y = 0 \<rparr>
          \<notin> set (oriented_corners_about (object_center ((image_at ''a'' 0 0)\<lparr> o_rotation := 180 \<rparr>))
              ((image_at ''a'' 0 0)\<lparr> o_rotation := 180 \<rparr>) 0)"
    by (simp add: oriented_corners_about_def object_center_def inflated_box_def rect_polygon_def
        rotate_about_def image_at_def)
  ultimately show ?thesis by metis
qed


subsection \<open>Separating axes on axis-aligned rectangles\<close>

lemma project_rect_y:
  assumes "0 \<le> h"
  shows "project \<lparr> p_x = 0, p_y = c \<rparr> (rect_polygon x y w h)
         = (if 0 \<le> c then (Finite (c * y), Finite (c * (y + h)))
            else (Finite (c * (y + h)), Finite (c * y)))"
proof (cases "0 \<le> c")
  case True
  with assms have "c * y \<le> c * (y + h)" by (simp add: mult_left_mono)
  with True show ?thesis
    by (simp add: project_def rect_polygon_def Let_def not_less)
next
  case False
  with assms have "c * (y + h) \<le> c * y" by (simp add: mult_left_mono_neg)
  with False show ?thesis
    by (simp add: project_def rect_polygon_def Let_def not_less)
qed

lemma project_rect_x:
  assumes "0 \<le> w"
  shows "project \<lparr> p_x = c, p_y = 0 \<rparr> (rect_polygon x y w h)
         = (if 0 \<le> c then (Finite (c * x), Finite (c * (x + w)))
            else (Finite (c * (x + w)), Finite (c * x)))"
proof (cases "0 \<le> c")
  case True
  with assms have "c * x \<le> c * (x + w)" by (simp add: mult_left_mono)
  with True show ?thesis
    by (simp add: project_def rect_polygon_def Let_def not_less)
next
  case False
  with assms have "c * (x + w) \<le> c * x" by (simp add: mult_left_mono_neg)
  with False show ?thesis
    by (simp add: project_def rect_polygon_def Let_def not_less)
qed


lemma rect_edge_normals:
  "separated_on_edge a b (rect_polygon qx qy qw qh) 0 =
      (case project \<lparr> p_x = 0, p_y = - qw \<rparr> a of (minA, maxA) \<Rightarrow>
       case project \<lparr> p_x = 0, p_y = - qw \<rparr> b of (minB, maxB) \<Rightarrow>
         js_less maxA minB \<or> js_less maxB minA)"
  "separated_on_edge a b (rect_polygon qx qy qw qh) 1 =
      (case project \<lparr> p_x = qh, p_y = 0 \<rparr> a of (minA, maxA) \<Rightarrow>
       case project \<lparr> p_x = qh, p_y = 0 \<rparr> b of (minB, maxB) \<Rightarrow>
         js_less maxA minB \<or> js_less maxB minA)"
  "separated_on_edge a b (rect_polygon qx qy qw qh) 2 =
      (case project \<lparr> p_x = 0, p_y = qw \<rparr> a of (minA, maxA) \<Rightarrow>
       case project \<lparr> p_x = 0, p_y = qw \<rparr> b of (minB, maxB) \<Rightarrow>
         js_less maxA minB \<or> js_less maxB minA)"
  "separated_on_edge a b (rect_polygon qx qy qw qh) 3 =
      (case project \<lparr> p_x = - qh, p_y = 0 \<rparr> a of (minA, maxA) \<Rightarrow>
       case project \<lparr> p_x = - qh, p_y = 0 \<rparr> b of (minB, maxB) \<Rightarrow>
         js_less maxA minB \<or> js_less maxB minA)"
  by (simp_all add: separated_on_edge_def rect_polygon_def Let_def)

lemma separated_on_rect_edges:
  fixes ax ay aw ah bx "by" bw bh qx qy qw qh :: real
  assumes "0 \<le> aw" "0 \<le> ah" "0 \<le> bw" "0 \<le> bh" "0 < qw" "0 < qh"
  shows "separated_on_edge (rect_polygon ax ay aw ah) (rect_polygon bx by bw bh)
           (rect_polygon qx qy qw qh) 0 \<longleftrightarrow> by + bh < ay \<or> ay + ah < by"
    and "separated_on_edge (rect_polygon ax ay aw ah) (rect_polygon bx by bw bh)
           (rect_polygon qx qy qw qh) 1 \<longleftrightarrow> ax + aw < bx \<or> bx + bw < ax"
    and "separated_on_edge (rect_polygon ax ay aw ah) (rect_polygon bx by bw bh)
           (rect_polygon qx qy qw qh) 2 \<longleftrightarrow> ay + ah < by \<or> by + bh < ay"
    and "separated_on_edge (rect_polygon ax ay aw ah) (rect_polygon bx by bw bh)
           (rect_polygon qx qy qw qh) 3 \<longleftrightarrow> bx + bw < ax \<or> ax + aw < bx"
  using assms
  by (simp_all only: rect_edge_normals project_rect_y project_rect_x)
     (simp_all add: not_le)

lemma upt_4: "[0..<4] = [0, 1, 2, 3]"
  by (simp add: upt_rec)

text \<open>
  C5. For two axis-aligned rectangles of positive width and height, given by their four
  corners in the order \<open>getRotatedCorners\<close> produces at rotation 0, \<open>doPolygonsIntersect\<close>
  is true exactly when their x-ranges intersect and their y-ranges intersect, as closed
  intervals (rectangles that only touch count as intersecting).
\<close>

theorem doPolygonsIntersect_axis_aligned:
  assumes "0 < aw" "0 < ah" "0 < bw" "0 < bh"
  shows "doPolygonsIntersect (rect_polygon ax ay aw ah) (rect_polygon bx by bw bh)
         \<longleftrightarrow> intervals_intersect ax (ax + aw) bx (bx + bw)
               \<and> intervals_intersect ay (ay + ah) by (by + bh)"
proof -
  let ?A = "rect_polygon ax ay aw ah" and ?B = "rect_polygon bx by bw bh"
  have len: "length ?A = 4" "length ?B = 4"
    by (simp_all add: rect_polygon_def)
  have ea: "list_ex (separated_on_edge ?A ?B ?A) [0..<4]
            \<longleftrightarrow> by + bh < ay \<or> ay + ah < by \<or> ax + aw < bx \<or> bx + bw < ax"
    using assms separated_on_rect_edges [of aw ah bw bh aw ah ax ay bx "by" ax ay]
    by (auto simp: upt_4 simp del: One_nat_def)
  have eb: "list_ex (separated_on_edge ?A ?B ?B) [0..<4]
            \<longleftrightarrow> by + bh < ay \<or> ay + ah < by \<or> ax + aw < bx \<or> bx + bw < ax"
    using assms separated_on_rect_edges [of aw ah bw bh bw bh ax ay bx "by" bx "by"]
    by (auto simp: upt_4 simp del: One_nat_def)
  have "doPolygonsIntersect ?A ?B
        \<longleftrightarrow> \<not> (by + bh < ay \<or> ay + ah < by \<or> ax + aw < bx \<or> bx + bw < ax)"
    unfolding doPolygonsIntersect_def by (simp add: len ea eb)
  then show ?thesis
    by (auto simp: intervals_intersect_def)
qed

theorem doPolygonsIntersect_axis_aligned_witness:
  "doPolygonsIntersect (rect_polygon 0 0 2 2) (rect_polygon 1 1 2 2)
   \<and> \<not> doPolygonsIntersect (rect_polygon 0 0 2 2) (rect_polygon 3 0 2 2)"
  using doPolygonsIntersect_axis_aligned [of 2 2 2 2 0 0 1 1]
        doPolygonsIntersect_axis_aligned [of 2 2 2 2 0 0 3 0]
  by (simp add: intervals_intersect_def)

lemma getRotatedCorners_unrotated:
  "o_rotation obj = 0 \<Longrightarrow>
   getRotatedCorners obj buffer
     = rect_polygon (o_x obj - buffer) (o_y obj - buffer)
         (o_width obj * \<bar>o_scaleX obj\<bar> + 2 * buffer)
         (o_height obj * \<bar>o_scaleY obj\<bar> + 2 * buffer)"
  by (simp add: getRotatedCorners_def rect_polygon_def Let_def)

subsection \<open>Multi-object drag\<close>

lemma find_id_Some:
  "obj \<in> set objs \<Longrightarrow> \<exists>obj'. find (\<lambda>ob. o_id ob = o_id obj) objs = Some obj' \<and> obj' \<in> set objs
      \<and> o_id obj' = o_id obj"
  by (induction objs) auto

lemma foldl_record_anchor:
  "foldl (record_anchor objs nds) m ids k =
     (if k \<in> set ids then record_anchor objs nds m k k else m k)"
proof (induction ids arbitrary: m)
  case Nil
  then show ?case by simp
next
  case (Cons x xs)
  show ?case
    by (simp add: Cons.IH) (auto simp: record_anchor_def split: option.splits)
qed

lemma foldl_move_follower:
  "foldl (move_follower anchors i dx dy) nds ids k =
     (if k \<in> set ids then move_follower anchors i dx dy nds k k else nds k)"
proof (induction ids arbitrary: nds)
  case Nil
  then show ?case by simp
next
  case (Cons x xs)
  show ?case
    by (simp add: Cons.IH) (auto simp: move_follower_def split: option.splits)
qed


lemma onDragMove_frame:
  "history (onDragMove i s) = history s" "historyStep (onDragMove i s) = historyStep s"
  "objects (onDragMove i s) = objects s" "selectedIds (onDragMove i s) = selectedIds s"
  "dragStartAttrs (onDragMove i s) = dragStartAttrs s"
  by (simp_all add: onDragMove_def Let_def split: option.splits)

lemma konva_drag_frame:
  "history (konva_drag i p s) = history s" "historyStep (konva_drag i p s) = historyStep s"
  "objects (konva_drag i p s) = objects s" "selectedIds (konva_drag i p s) = selectedIds s"
  "dragStartAttrs (konva_drag i p s) = dragStartAttrs s"
  "nodes (konva_drag i p s) = (nodes s)(i \<mapsto> p)"
  by (simp_all add: konva_drag_def)

lemma drag_moves_snoc:
  "drag_moves i (ps @ [p]) s = onDragMove i (konva_drag i p (drag_moves i ps s))"
  by (simp add: drag_moves_def)

lemma drag_moves_frame:
  "history (drag_moves i ps s) = history s \<and> historyStep (drag_moves i ps s) = historyStep s
   \<and> objects (drag_moves i ps s) = objects s \<and> selectedIds (drag_moves i ps s) = selectedIds s
   \<and> dragStartAttrs (drag_moves i ps s) = dragStartAttrs s"
proof (induction ps rule: rev_induct)
  case Nil
  then show ?case by (simp add: drag_moves_def)
next
  case (snoc p ps)
  then show ?case
    by (simp only: drag_moves_snoc onDragMove_frame konva_drag_frame)
qed

lemma singleton_selection:
  assumes "i \<in> set ids" and "\<not> 1 < length ids" and "k \<in> set ids"
  shows "k = i"
proof -
  from assms(1,2) obtain x where "ids = [x]"
    by (cases ids) (auto simp: not_less)
  with assms(1,3) show ?thesis by simp
qed

lemma drag_moves_nodes:
  assumes sel: "o_id a \<in> set (selectedIds s1)"
    and a: "a \<in> set objs"
    and anch: "\<forall>obj \<in> set objs. o_id obj \<in> set (selectedIds s1) \<longrightarrow>
                 (\<exists>st. dragStartAttrs s1 (o_id obj) = Some st \<and> o_x st = o_x obj \<and> o_y st = o_y obj)"
    and sync: "\<forall>obj \<in> set objs. nodes s1 (o_id obj) = Some \<lparr> p_x = o_x obj, p_y = o_y obj \<rparr>"
    and b: "b \<in> set objs" "o_id b \<in> set (selectedIds s1)"
  shows "nodes (drag_moves (o_id a) ps s1) (o_id b)
         = Some \<lparr> p_x = o_x b + (p_x (last (\<lparr> p_x = o_x a, p_y = o_y a \<rparr> # ps)) - o_x a),
                   p_y = o_y b + (p_y (last (\<lparr> p_x = o_x a, p_y = o_y a \<rparr> # ps)) - o_y a) \<rparr>"
  using b
proof (induction ps arbitrary: b rule: rev_induct)
  case Nil
  with sync show ?case by (simp add: drag_moves_def)
next
  case (snoc p ps)
  let ?i = "o_id a"
  let ?t = "drag_moves ?i ps s1"
  let ?u = "konva_drag ?i p ?t"
  have fr: "selectedIds ?u = selectedIds s1" "dragStartAttrs ?u = dragStartAttrs s1"
    using drag_moves_frame [of ?i ps s1] by (simp_all add: konva_drag_frame)
  have nu: "nodes ?u = (nodes ?t)(?i \<mapsto> p)" by (simp add: konva_drag_frame)
  from anch a sel obtain sa where sa: "dragStartAttrs s1 ?i = Some sa" "o_x sa = o_x a" "o_y sa = o_y a"
    by blast
  from anch snoc.prems obtain sb where sb: "dragStartAttrs s1 (o_id b) = Some sb"
      "o_x sb = o_x b" "o_y sb = o_y b"
    by blast
  have same: "o_x b = o_x a \<and> o_y b = o_y a" if "o_id b = ?i"
    using sync a snoc.prems(1) that by (metis Point.ext_inject option.inject)
  have old: "nodes ?t (o_id b) \<noteq> None"
    using snoc.IH [OF snoc.prems] by simp
  show ?case
  proof (cases "1 < length (selectedIds s1)")
    case True
    have "nodes (onDragMove ?i ?u)
          = foldl (move_follower (dragStartAttrs s1) ?i (p_x p - o_x a) (p_y p - o_y a))
              ((nodes ?t)(?i \<mapsto> p)) (selectedIds s1)"
      using True sel sa by (simp add: onDragMove_def fr nu Let_def)
    then have "nodes (onDragMove ?i ?u) (o_id b)
          = move_follower (dragStartAttrs s1) ?i (p_x p - o_x a) (p_y p - o_y a)
              ((nodes ?t)(?i \<mapsto> p)) (o_id b) (o_id b)"
      using snoc.prems(2) by (simp add: foldl_move_follower)
    also have "\<dots> = Some \<lparr> p_x = o_x b + (p_x p - o_x a), p_y = o_y b + (p_y p - o_y a) \<rparr>"
    proof (cases "o_id b = ?i")
      case True
      with same show ?thesis by (simp add: move_follower_def)
    next
      case False
      with old sb show ?thesis by (auto simp: move_follower_def split: option.splits)
    qed
    finally show ?thesis by (simp add: drag_moves_snoc)
  next
    case False
    then have eq: "onDragMove ?i ?u = ?u"
      by (simp add: onDragMove_def fr)
    have "o_id b = ?i"
      using singleton_selection [OF sel False snoc.prems(2)] .
    with same show ?thesis
      by (simp add: drag_moves_snoc eq nu)
  qed
qed


text \<open>
  C6. A drag gesture on a selected object \<open>a\<close>, on a stage in step with the committed
  objects. After every move, each selected object's node is at its pre-drag position plus
  the delta of \<open>a\<close>'s node from its own pre-drag position, and the history is untouched.
  At the end of the gesture the committed list is the old one with every selected object
  moved by the final delta, and the history has received exactly one new entry, that
  list, after the entries up to the cursor.
\<close>

theorem multi_drag_lockstep:
  fixes ps :: "Point list" and a :: DesignObject
  defines "dx \<equiv> p_x (last (\<lparr> p_x = o_x a, p_y = o_y a \<rparr> # ps)) - o_x a"
    and "dy \<equiv> p_y (last (\<lparr> p_x = o_x a, p_y = o_y a \<rparr> # ps)) - o_y a"
  assumes objs: "objects s = Some objs"
    and a: "a \<in> set objs" and sel: "o_id a \<in> set (selectedIds s)"
    and sync: "\<forall>obj \<in> set objs. nodes s (o_id obj) = Some \<lparr> p_x = o_x obj, p_y = o_y obj \<rparr>"
  shows "\<exists>s1 s'.
           onDragStart (o_id a) s = Inr s1
         \<and> history (drag_moves (o_id a) ps s1) = history s
         \<and> historyStep (drag_moves (o_id a) ps s1) = historyStep s
         \<and> objects (drag_moves (o_id a) ps s1) = objects s
         \<and> (\<forall>b \<in> set objs. o_id b \<in> set (selectedIds s) \<longrightarrow>
               nodes (drag_moves (o_id a) ps s1) (o_id b)
                 = Some \<lparr> p_x = o_x b + dx, p_y = o_y b + dy \<rparr>)
         \<and> drag_gesture (o_id a) ps s = Inr s'
         \<and> objects s'
             = Some (map (\<lambda>obj. if o_id obj \<in> set (selectedIds s) then shifted dx dy obj else obj) objs)
         \<and> history s'
             = take (historyStep s + 1) (history s)
               @ [map (\<lambda>obj. if o_id obj \<in> set (selectedIds s) then shifted dx dy obj else obj) objs]
         \<and> historyStep s' + 1 = length (history s')"
proof -
  let ?i = "o_id a"
  let ?anch = "foldl (record_anchor objs (nodes s)) (dragStartAttrs s) (selectedIds s)"
  let ?s1 = "s\<lparr> dragStartAttrs := ?anch, isDragging := True \<rparr>"
  let ?t = "drag_moves ?i ps ?s1"
  let ?new = "map (\<lambda>obj. if o_id obj \<in> set (selectedIds s) then shifted dx dy obj else obj) objs"
  have start: "onDragStart ?i s = Inr ?s1"
    using objs sel by (simp add: onDragStart_def)
  have anch: "\<exists>st. dragStartAttrs ?s1 (o_id obj) = Some st \<and> o_x st = o_x obj \<and> o_y st = o_y obj"
    if "obj \<in> set objs" "o_id obj \<in> set (selectedIds s)" for obj
  proof -
    from find_id_Some [OF that(1)] obtain obj' where
      "find (\<lambda>ob. o_id ob = o_id obj) objs = Some obj'" by blast
    with that sync show ?thesis
      by (simp add: foldl_record_anchor record_anchor_def)
  qed
  have frame: "history ?t = history s" "historyStep ?t = historyStep s" "objects ?t = objects s"
      "selectedIds ?t = selectedIds s"
    using drag_moves_frame [of ?i ps ?s1] by simp_all
  have lock: "nodes ?t (o_id b) = Some \<lparr> p_x = o_x b + dx, p_y = o_y b + dy \<rparr>"
    if "b \<in> set objs" "o_id b \<in> set (selectedIds s)" for b
    unfolding dx_def dy_def
    using drag_moves_nodes [of a ?s1 objs b ps] a sel sync anch that by simp
  have new: "map (\<lambda>obj. if o_id obj \<in> set (selectedIds s)
                         then (case nodes ?t (o_id obj) of
                                 Some node \<Rightarrow> obj\<lparr> o_x := p_x node, o_y := p_y node \<rparr>
                               | None \<Rightarrow> obj)
                         else obj) objs = ?new"
    by (rule map_cong) (simp_all add: lock shifted_def)
  have "onDragEnd ?i ?t
        = Inr ((saveHistory
                  (map (\<lambda>obj. if o_id obj \<in> set (selectedIds s)
                         then (case nodes ?t (o_id obj) of
                                 Some node \<Rightarrow> obj\<lparr> o_x := p_x node, o_y := p_y node \<rparr>
                               | None \<Rightarrow> obj)
                         else obj) objs) ?t)\<lparr> isDragging := False, dragStartAttrs := Map.empty \<rparr>)"
    using objs sel by (simp add: onDragEnd_def frame Let_def)
  then have "onDragEnd ?i ?t
        = Inr ((saveHistory ?new ?t)\<lparr> isDragging := False, dragStartAttrs := Map.empty \<rparr>)"
    by (simp only: new)
  then have gest: "drag_gesture ?i ps s
        = Inr ((saveHistory ?new ?t)\<lparr> isDragging := False, dragStartAttrs := Map.empty \<rparr>)"
    by (simp add: drag_gesture_def start)
  let ?s' = "(saveHistory ?new ?t)\<lparr> isDragging := False, dragStartAttrs := Map.empty \<rparr>"
  have fin: "objects ?s' = Some ?new"
      "history ?s' = take (historyStep s + 1) (history s) @ [?new]"
      "historyStep ?s' + 1 = length (history ?s')"
    by (simp_all add: saveHistory_def Let_def frame)
  from start frame lock gest fin show ?thesis by blast
qed

theorem multi_drag_lockstep_witness:
  "\<exists>s'. drag_gesture ''A'' [\<lparr> p_x = 5, p_y = 5 \<rparr>, \<lparr> p_x = 30, p_y = 40 \<rparr>]
           (initial_App\<lparr> objects := Some [image_at ''A'' 0 0, image_at ''B'' 100 50, image_at ''C'' 10 200],
                         selectedIds := [''A'', ''B'', ''C''],
                         nodes := nodes_of [image_at ''A'' 0 0, image_at ''B'' 100 50, image_at ''C'' 10 200] \<rparr>)
         = Inr s'
       \<and> objects s' = Some [image_at ''A'' 30 40, image_at ''B'' 130 90, image_at ''C'' 40 240]
       \<and> history s' = [[], [image_at ''A'' 30 40, image_at ''B'' 130 90, image_at ''C'' 40 240]]"
  using multi_drag_lockstep
          [of "initial_App\<lparr> objects := Some [image_at ''A'' 0 0, image_at ''B'' 100 50, image_at ''C'' 10 200],
                         selectedIds := [''A'', ''B'', ''C''],
                         nodes := nodes_of [image_at ''A'' 0 0, image_at ''B'' 100 50, image_at ''C'' 10 200] \<rparr>"
              "[image_at ''A'' 0 0, image_at ''B'' 100 50, image_at ''C'' 10 200]"
              "image_at ''A'' 0 0"
              "[\<lparr> p_x = 5, p_y = 5 \<rparr>, \<lparr> p_x = 30, p_y = 40 \<rparr>]"]
  by (auto simp: initial_App_def image_at_def nodes_of_def shifted_def)

subsection \<open>Export: painting one object\<close>

lemma draw_image_ops:
  "draw_image S (img, obj) =
     (case dest_rect S obj of (x, y, w, h) \<Rightarrow>
        [ Save, Translate (x + w / 2) (y + h / 2), Rotate (js_or (o_rotation obj) 0 * pi / 180),
          DrawImage img (- w / 2) (- h / 2) w h, Restore ])"
  by (simp add: draw_image_def Let_def split: prod.splits)

lemma run_draw:
  fixes cx :: "'img ctx" and img :: 'img and x y w h t :: real
  defines "cy \<equiv> run_ops cx [ Save, Translate (x + w / 2) (y + h / 2), Rotate t,
                               DrawImage img (- w / 2) (- h / 2) w h, Restore ]"
  shows "ctm cy = ctm cx" and "stack cy = stack cx"
    and "painted cy
         = painted cx @ [(img, map (apply_matrix (ctm cx)) (turned_about_center t (x, y, w, h)))]"
  by (simp_all add: cy_def run_ops_def apply_matrix_def rect_polygon_def rotate_about_def
      algebra_simps)

lemma js_or_simps: "js_or 1 d = 1" "js_or 0 d = d"
  by (simp_all add: js_or_def)

lemma draw_image_run:
  "ctm (run_ops cx (draw_image S (img, obj))) = ctm cx"
  "stack (run_ops cx (draw_image S (img, obj))) = stack cx"
  "painted (run_ops cx (draw_image S (img, obj)))
     = painted cx
       @ [(img, map (apply_matrix (ctm cx))
                  (turned_about_center (js_or (o_rotation obj) 0 * pi / 180) (dest_rect S obj)))]"
proof -
  obtain x y w h where d: "dest_rect S obj = (x, y, w, h)"
    by (cases "dest_rect S obj") auto
  have ops: "draw_image S (img, obj)
      = [ Save, Translate (x + w / 2) (y + h / 2), Rotate (js_or (o_rotation obj) 0 * pi / 180),
          DrawImage img (- w / 2) (- h / 2) w h, Restore ]"
    by (simp add: draw_image_ops d)
  show "ctm (run_ops cx (draw_image S (img, obj))) = ctm cx"
    "stack (run_ops cx (draw_image S (img, obj))) = stack cx"
    "painted (run_ops cx (draw_image S (img, obj)))
     = painted cx
       @ [(img, map (apply_matrix (ctm cx))
                  (turned_about_center (js_or (o_rotation obj) 0 * pi / 180) (dest_rect S obj)))]"
    unfolding ops d by (rule run_draw)+
qed

text \<open>
  C1 (amended). Painting one loaded object leaves the transform and the save stack of the
  context as they were, and paints the image once, onto the rectangle
  \<open>(x * S, y * S, width * S * sx, height * S * sy)\<close> turned by \<open>rotation\<close> degrees about
  its centre, where \<open>sx\<close> and \<open>sy\<close> are the signed scales (1 for a scale of 0). An object
  with \<open>width = 96\<close>, \<open>scaleX = 1\<close>, \<open>rotation = 0\<close> at \<open>x = 0\<close> is painted, at
  \<open>S = 300 / 96\<close>, onto a rectangle from 0 to 300 across.
\<close>

theorem draw_image_paints:
  "ctm (run_ops cx (draw_image S (img, obj))) = ctm cx
   \<and> stack (run_ops cx (draw_image S (img, obj))) = stack cx
   \<and> painted (run_ops cx (draw_image S (img, obj)))
       = painted cx
         @ [(img, map (apply_matrix (ctm cx))
                    (turned_about_center (js_or (o_rotation obj) 0 * pi / 180) (dest_rect S obj)))]
   \<and> dest_rect S obj
       = (o_x obj * S, o_y obj * S,
          o_width obj * S * js_or (o_scaleX obj) 1, o_height obj * S * js_or (o_scaleY obj) 1)
   \<and> painted (run_ops fresh_ctx
        (draw_image (300 / 96) (img, obj\<lparr> o_x := 0, o_width := 96, o_scaleX := 1, o_rotation := 0 \<rparr>)))
       = [(img, rect_polygon 0 (o_y obj * (300 / 96)) 300
                  (o_height obj * (300 / 96) * js_or (o_scaleY obj) 1))]"
proof -
  have c4: "dest_rect S obj
       = (o_x obj * S, o_y obj * S,
          o_width obj * S * js_or (o_scaleX obj) 1, o_height obj * S * js_or (o_scaleY obj) 1)"
    by (simp add: dest_rect_def)
  have c5: "painted (run_ops fresh_ctx
        (draw_image (300 / 96) (img, obj\<lparr> o_x := 0, o_width := 96, o_scaleX := 1, o_rotation := 0 \<rparr>)))
       = [(img, rect_polygon 0 (o_y obj * (300 / 96)) 300
                  (o_height obj * (300 / 96) * js_or (o_scaleY obj) 1))]"
    by (simp add: draw_image_run dest_rect_def js_or_simps fresh_ctx_def identity_matrix_def
        apply_matrix_def rect_polygon_def rotate_about_def)
  from c4 c5 show ?thesis
    by (simp only: draw_image_run simp_thms)
qed

text \<open>
  The specification as written sizes the rectangle with \<open>|scaleX|\<close>. For a mirrored object,
  \<open>scaleX = -1\<close> and \<open>width = 96\<close>, the code computes the width \<open>-300\<close>, not \<open>300\<close>.
\<close>

theorem dest_rect_abs_counterexample:
  "dest_rect (300 / 96) ((image_at ''a'' 0 0)\<lparr> o_scaleX := -1 \<rparr>) = (0, 0, -300, 150)
   \<and> dest_rect_spec (300 / 96) ((image_at ''a'' 0 0)\<lparr> o_scaleX := -1 \<rparr>) = (0, 0, 300, 150)
   \<and> dest_rect (300 / 96) ((image_at ''a'' 0 0)\<lparr> o_scaleX := -1 \<rparr>)
       \<noteq> dest_rect_spec (300 / 96) ((image_at ''a'' 0 0)\<lparr> o_scaleX := -1 \<rparr>)"
  by (simp add: dest_rect_def dest_rect_spec_def image_at_def js_or_def)


subsection \<open>Export: validation and partial failure\<close>

lemma successful_load_image:
  "successful (map (load_image env) objs)
   = List.map_filter
       (\<lambda>obj. if imageUrl obj = [] then None
               else map_option (\<lambda>img. (img, obj)) (fetch_image env (imageUrl obj))) objs"
  by (induction objs) (auto simp: load_image_def List.map_filter_simps split: option.splits)

lemma export_valid:
  fixes env :: "'img env"
  assumes "b_size body = Some sz" and "b_objects body = Array objs"
    and "filter (\<lambda>obj. o_type obj = ''image'') objs \<noteq> []"
  defines "imageObjects \<equiv> filter (\<lambda>obj. o_type obj = ''image'') objs"
  defines "loaded \<equiv> successful (map (load_image env) imageObjects)"
  defines "urls \<equiv> filter (\<lambda>u. u \<noteq> []) (map imageUrl imageObjects)"
  defines "blank \<equiv> \<lparr> c_width = \<lceil>s_width sz * (300 / 96)\<rceil>, c_height = \<lceil>s_height sz * (300 / 96)\<rceil>,
                       c_ops = ([] :: 'img ctx_op list) \<rparr>"
  shows "export env body =
     (if loaded = []
      then fail 500 ''Failed to load any images. Please ensure images are uploaded and accessible.''
             urls (Some blank)
      else \<lparr> r_response =
               (case finalize env (blank\<lparr> c_ops := concat (map (draw_image (300 / 96)) loaded) \<rparr>) of
                  None \<Rightarrow> Json 500 ''Failed to generate image''
                | Some buffer \<Rightarrow> Png buffer),
             r_fetched = urls,
             r_canvas = Some (blank\<lparr> c_ops := concat (map (draw_image (300 / 96)) loaded) \<rparr>),
             r_warned = (if length loaded < length imageObjects
                         then Some (length loaded, length imageObjects) else None) \<rparr>)"
proof -
  from assms(3) have ne: "objs \<noteq> []" by auto
  show ?thesis
    using assms(1-3) ne
    unfolding loaded_def urls_def blank_def imageObjects_def export_def
    by (simp add: Let_def split: option.splits)
qed


text \<open>
  C7 (amended). A request without \<open>size\<close>, without \<open>objects\<close>, with an \<open>objects\<close> that
  is not an array or is empty, or with no object of type \<open>image\<close>, is answered with
  status 400; no URL is requested, nothing is drawn and no warning is logged. In the first
  cases the request is rejected before a canvas exists. A non-empty array with no object
  of type \<open>image\<close> is rejected after the blank canvas of the sheet's size and its context
  have been created.
\<close>

theorem export_validation:
  assumes "b_size body = None \<or> b_objects body = Absent \<or> b_objects body = NotArray
           \<or> (\<exists>objs. b_objects body = Array objs
                      \<and> filter (\<lambda>obj. o_type obj = ''image'') objs = [])"
  shows "(\<exists>msg. r_response (export env body) = Json 400 msg)
       \<and> r_fetched (export env body) = []
       \<and> (\<forall>cv. r_canvas (export env body) = Some cv \<longrightarrow> c_ops cv = [])
       \<and> r_warned (export env body) = None
       \<and> (b_size body = None \<or> b_objects body = Absent \<or> b_objects body = NotArray
            \<or> b_objects body = Array []
           \<longrightarrow> r_canvas (export env body) = None)
       \<and> (\<forall>sz objs. b_size body = Some sz \<and> b_objects body = Array objs \<and> objs \<noteq> []
           \<longrightarrow> r_response (export env body) = Json 400 ''No image objects to export''
             \<and> r_canvas (export env body)
                 = Some \<lparr> c_width = \<lceil>s_width sz * (300 / 96)\<rceil>,
                          c_height = \<lceil>s_height sz * (300 / 96)\<rceil>, c_ops = [] \<rparr>)"
proof (cases "b_size body")
  case None
  then show ?thesis by (simp add: export_def fail_def)
next
  case (Some sz)
  show ?thesis
  proof (cases "b_objects body")
    case Absent
    with Some show ?thesis by (simp add: export_def fail_def)
  next
    case NotArray
    with Some show ?thesis by (simp add: export_def fail_def)
  next
    case (Array objs)
    with Some assms have "filter (\<lambda>obj. o_type obj = ''image'') objs = []" by simp
    with Some Array show ?thesis by (simp add: export_def fail_def Let_def)
  qed
qed

theorem export_validation_witness:
  "r_response (export (env_where (\<lambda>u. Some 0) (\<lambda>cv. Some [1]))
                 (export_request [(image_at ''a'' 0 0)\<lparr> o_type := ''text'' \<rparr>]))
     = Json 400 ''No image objects to export''
   \<and> r_fetched (export (env_where (\<lambda>u. Some 0) (\<lambda>cv. Some [1]))
                 (export_request [(image_at ''a'' 0 0)\<lparr> o_type := ''text'' \<rparr>])) = []
   \<and> r_canvas (export (env_where (\<lambda>u. Some 0) (\<lambda>cv. Some [1])) (export_request [])) = None"
  using export_validation
          [of "export_request [(image_at ''a'' 0 0)\<lparr> o_type := ''text'' \<rparr>]"
              "env_where (\<lambda>u. Some 0) (\<lambda>cv. Some [1])"]
        export_validation
          [of "export_request []" "env_where (\<lambda>u. Some 0) (\<lambda>cv. Some [1])"]
  by (simp add: export_request_def image_at_def)

text \<open>
  The specification as written has every such request rejected before any rendering work.
  A request whose one object is not an image is answered with status 400 when the canvas
  of 6600 by 3600 pixels and its context already exist.
\<close>

theorem export_validation_canvas_counterexample:
  "r_response (export (env_where (\<lambda>u. Some 0) (\<lambda>cv. Some [1]))
                 (export_request [(image_at ''a'' 0 0)\<lparr> o_type := ''text'' \<rparr>]))
     = Json 400 ''No image objects to export''
   \<and> r_canvas (export (env_where (\<lambda>u. Some 0) (\<lambda>cv. Some [1]))
                 (export_request [(image_at ''a'' 0 0)\<lparr> o_type := ''text'' \<rparr>]))
     = Some \<lparr> c_width = 6600, c_height = 3600, c_ops = [] \<rparr>
   \<and> r_canvas (export (env_where (\<lambda>u. Some 0) (\<lambda>cv. Some [1]))
                 (export_request [(image_at ''a'' 0 0)\<lparr> o_type := ''text'' \<rparr>]))
     \<noteq> None"
  by (simp add: export_def export_request_def image_at_def fail_def Let_def)

text \<open>
  C3 (amended). For a request that passes validation, the loaded subset is the image
  objects that have a URL whose download and decode succeed, in list order. The export
  answers with the error \<open>Failed to load any images\<close> exactly when that subset is empty,
  and then nothing is drawn. It answers with an error at all exactly when the subset is
  empty or the raster cannot be finalised. When the subset is not empty, the canvas
  receives the drawing calls of exactly the loaded objects, in order, the response is the
  finalised raster of that canvas (or the error \<open>Failed to generate image\<close>), and the
  counts loaded/total are logged when some object was skipped.
\<close>

theorem export_partial_failure:
  fixes env :: "'img env"
  defines "total_loss \<equiv> ''Failed to load any images. Please ensure images are uploaded and accessible.''"
  assumes "b_size body = Some sz" and "b_objects body = Array objs"
    and "filter (\<lambda>obj. o_type obj = ''image'') objs \<noteq> []"
  defines "imageObjects \<equiv> filter (\<lambda>obj. o_type obj = ''image'') objs"
  defines "loaded \<equiv> List.map_filter
       (\<lambda>obj. if imageUrl obj = [] then None
               else map_option (\<lambda>img. (img, obj)) (fetch_image env (imageUrl obj))) imageObjects"
  defines "blank \<equiv> \<lparr> c_width = \<lceil>s_width sz * (300 / 96)\<rceil>, c_height = \<lceil>s_height sz * (300 / 96)\<rceil>,
                       c_ops = ([] :: 'img ctx_op list) \<rparr>"
  defines "drawn \<equiv> blank\<lparr> c_ops := concat (map (draw_image (300 / 96)) loaded) \<rparr>"
  shows "(r_response (export env body) = Json 500 total_loss \<longleftrightarrow> loaded = [])
       \<and> (is_error (r_response (export env body)) \<longleftrightarrow> loaded = [] \<or> finalize env drawn = None)
       \<and> (loaded = [] \<longrightarrow> r_canvas (export env body) = Some blank)
       \<and> (loaded \<noteq> [] \<longrightarrow>
             r_canvas (export env body) = Some drawn
           \<and> r_response (export env body)
               = (case finalize env drawn of
                    None \<Rightarrow> Json 500 ''Failed to generate image''
                  | Some buffer \<Rightarrow> Png buffer)
           \<and> r_warned (export env body)
               = (if length loaded < length imageObjects
                  then Some (length loaded, length imageObjects) else None))"
proof -
  have l: "loaded = successful (map (load_image env) imageObjects)"
    by (simp add: loaded_def successful_load_image)
  note e = export_valid [OF assms(2-4), of env, folded imageObjects_def, folded l,
      folded blank_def, folded drawn_def]
  show ?thesis
  proof (cases "loaded = []")
    case True
    then show ?thesis
      by (simp add: e fail_def is_error_def total_loss_def)
  next
    case False
    then show ?thesis
      by (simp add: e is_error_def total_loss_def split: option.splits)
  qed
qed

theorem export_partial_failure_witness:
  "r_response (export (env_where (\<lambda>u. if u = ''b.png'' then None else Some (length u)) (\<lambda>cv. Some [1]))
      (export_request [(image_at ''a'' 0 0)\<lparr> o_src := ''a.png'' \<rparr>,
                       (image_at ''b'' 0 0)\<lparr> o_src := ''b.png'' \<rparr>,
                       (image_at ''c'' 0 0)\<lparr> o_src := ''c.png'' \<rparr>])) = Png [1]
   \<and> r_warned (export (env_where (\<lambda>u. if u = ''b.png'' then None else Some (length u)) (\<lambda>cv. Some [1]))
      (export_request [(image_at ''a'' 0 0)\<lparr> o_src := ''a.png'' \<rparr>,
                       (image_at ''b'' 0 0)\<lparr> o_src := ''b.png'' \<rparr>,
                       (image_at ''c'' 0 0)\<lparr> o_src := ''c.png'' \<rparr>])) = Some (2, 3)"
  using export_partial_failure
          [of "export_request [(image_at ''a'' 0 0)\<lparr> o_src := ''a.png'' \<rparr>,
                       (image_at ''b'' 0 0)\<lparr> o_src := ''b.png'' \<rparr>,
                       (image_at ''c'' 0 0)\<lparr> o_src := ''c.png'' \<rparr>]"
              "\<lparr> s_width = 2112, s_height = 1152 \<rparr>"
              "[(image_at ''a'' 0 0)\<lparr> o_src := ''a.png'' \<rparr>,
                       (image_at ''b'' 0 0)\<lparr> o_src := ''b.png'' \<rparr>,
                       (image_at ''c'' 0 0)\<lparr> o_src := ''c.png'' \<rparr>]"
              "env_where (\<lambda>u. if u = ''b.png'' then None else Some (length u)) (\<lambda>cv. Some [1])"]
  by (simp add: export_request_def image_at_def env_where_def imageUrl_def finalize_def
      List.map_filter_simps)

text \<open>
  The specification as written has the export fail only when no asset loads. Here the one asset
  loads, \<open>toBuffer\<close> returns an empty buffer, and the export fails.
\<close>

theorem export_failure_counterexample:
  "\<not> (is_error (r_response (export (env_where (\<lambda>u. Some 0) (\<lambda>cv. Some []))
                                (export_request [image_at ''a'' 0 0])))
       \<longleftrightarrow> successful (map (load_image (env_where (\<lambda>u. Some 0) (\<lambda>cv. Some [])))
                            [image_at ''a'' 0 0]) = [])"
  by (simp add: export_def export_request_def image_at_def env_where_def imageUrl_def
      load_image_def finalize_def is_error_def Let_def)

end
